theory Spec2Isabelle
  imports Complex_Main "HOL-Library.Sublist"
begin

section \<open>Content artifacts (backend/models/Content.js)\<close>

text \<open>
  Object ids are natural numbers and dates are integers, the milliseconds (local time)
  since the epoch. A JavaScript \<open>Number\<close> that only ever counts (the version counter) is an
  \<open>int\<close>. Only the schema paths that the modelled operations read or write are
  kept: title, metadata, figmaElements, tags and the embedded counters are written by
  none of them.
\<close>

type_synonym oid = nat

record revision =
  rev_content :: string
  modifiedBy :: oid
  modifiedAt :: int
  rev_version :: int
  changeLog :: string

record channel =
  platform :: string
  ch_status :: string
  publishedAt :: "int option"

record schedule_info =
  publishAt :: int
  timezone :: string

record content_doc =
  doc_id :: oid
  ctype :: string
  content :: string
  status :: string
  author :: oid
  company :: oid
  channels :: "channel list"
  schedule :: "schedule_info option"
  version :: int
  revisions :: "revision list"
  isArchived :: bool
  createdAt :: int

text \<open>What the handlers read of \<open>req.user\<close>: \<open>req.user._id\<close>,
  \<open>req.user.company._id\<close> and \<open>req.user.role\<close>. The second is an expression that
  can be \<open>undefined\<close> (\<open>None\<close>), and it is for every request that reaches a
  handler: see \<open>req_user\<close> below.\<close>

record account =
  user_id :: oid
  company_id :: "oid option"
  role :: string

text \<open>\<open>APIError(message, statusCode)\<close> of middlewares/errorHandler.js, the
  validation error that mongoose raises from \<open>save\<close>, and any other error a library
  throws (the error handler answers it with status 500).\<close>

datatype api_error = APIError string nat | ValidationError string | OtherError string

definition type_enum :: "string list" where
  "type_enum = [''blog'', ''social_post'', ''email'', ''design_doc'', ''changelog'',
     ''internal_comm'']"

definition status_enum :: "string list" where
  "status_enum = [''draft'', ''published'', ''archived'']"

definition platform_enum :: "string list" where
  "platform_enum = [''website'', ''twitter'', ''linkedin'', ''email'', ''slack'']"

definition channel_status_enum :: "string list" where
  "channel_status_enum = [''pending'', ''published'', ''failed'']"

text \<open>A document as \<open>new Content({type, content, author, company})\<close> builds it:
  the schema defaults give status draft, version 1, no revision, not archived.\<close>

definition new_content :: "oid \<Rightarrow> string \<Rightarrow> string \<Rightarrow> oid \<Rightarrow> oid \<Rightarrow> int \<Rightarrow> content_doc" where
  "new_content i ty body a c now =
     \<lparr>doc_id = i, ctype = ty, content = body, status = ''draft'', author = a,
      company = c, channels = [], schedule = None, version = 1, revisions = [],
      isArchived = False, createdAt = now\<rparr>"

text \<open>The schema validators that run on \<open>save\<close> for the modelled paths: content is
  required (a required string must be non-empty), status, the channel platform and the
  channel status are restricted to their enums.\<close>

definition valid_channel :: "channel \<Rightarrow> bool" where
  "valid_channel ch \<longleftrightarrow>
     platform ch \<in> set platform_enum \<and> ch_status ch \<in> set channel_status_enum"

definition validate :: "content_doc \<Rightarrow> bool" where
  "validate d \<longleftrightarrow>
     content d \<noteq> [] \<and> ctype d \<in> set type_enum \<and> status d \<in> set status_enum \<and>
     list_all valid_channel (channels d)"

text \<open>The content collection is the list of its documents. \<open>findById\<close> returns the
  document with the id, \<open>save\<close> validates and writes the document back over the stored
  one with its id (or inserts it when the id is new).\<close>

definition findById :: "oid \<Rightarrow> content_doc list \<Rightarrow> content_doc option" where
  "findById i cs = find (\<lambda>d. doc_id d = i) cs"

definition store :: "content_doc \<Rightarrow> content_doc list \<Rightarrow> content_doc list" where
  "store d cs =
     (if list_ex (\<lambda>x. doc_id x = doc_id d) cs
      then map (\<lambda>x. if doc_id x = doc_id d then d else x) cs
      else cs @ [d])"

definition save :: "content_doc \<Rightarrow> content_doc list \<Rightarrow> api_error + content_doc list" where
  "save d cs = (if validate d then Inr (store d cs) else Inl (ValidationError ''Content validation failed''))"

text \<open>\<open>contentSchema.methods.addRevision\<close>: push the current body with the current
  version, overwrite the body, increment the version, save. \<open>push_revision\<close> is the
  mutation of the document in memory; \<open>addRevision\<close> returns the mutated document with
  the collection it was saved to, or the error of the save.\<close>

definition push_revision :: "content_doc \<Rightarrow> oid \<Rightarrow> string \<Rightarrow> string \<Rightarrow> int \<Rightarrow> content_doc" where
  "push_revision d userId newContent changeNote now =
     d\<lparr>revisions := revisions d @
          [\<lparr>rev_content = content d, modifiedBy = userId, modifiedAt = now,
            rev_version = version d, changeLog = changeNote\<rparr>],
       content := newContent,
       version := version d + 1\<rparr>"

definition addRevision ::
  "content_doc \<Rightarrow> oid \<Rightarrow> string \<Rightarrow> string \<Rightarrow> int \<Rightarrow> content_doc list
     \<Rightarrow> api_error + (content_doc \<times> content_doc list)" where
  "addRevision d userId newContent changeNote now cs =
     (let d' = push_revision d userId newContent changeNote now
      in case save d' cs of Inl e \<Rightarrow> Inl e | Inr cs' \<Rightarrow> Inr (d', cs'))"

text \<open>A sequence of content-changing edits of one document, each one call of
  \<open>addRevision\<close> (editor, new body, change note, time); it stops at the first call that
  fails.\<close>

fun addRevisions ::
  "content_doc \<Rightarrow> (oid \<times> string \<times> string \<times> int) list \<Rightarrow> content_doc list
     \<Rightarrow> api_error + (content_doc \<times> content_doc list)" where
  "addRevisions d [] cs = Inr (d, cs)"
| "addRevisions d ((u, body, changeNote, now) # es) cs =
     (case addRevision d u body changeNote now cs of
        Inl e \<Rightarrow> Inl e
      | Inr (d', cs') \<Rightarrow> addRevisions d' es cs')"

section \<open>Analytics records (backend/models/Analytics.js)\<close>

text \<open>
  One record per artifact: the raw logs (views, likes, shares, comments, sentiment
  history) and the derived state (overall sentiment, the time series, the daily
  aggregate). Sentiment scores are JavaScript doubles; they are modelled as exact
  rationals, rounding is not modelled. A bucket of the time series and the daily
  aggregate hold the same five numbers, so one record serves both.
\<close>

record view_event =
  view_timestamp :: int
  view_source :: string
  userAgent :: "string option"

record engagement_event =
  ev_timestamp :: int
  ev_userId :: oid
  ev_detail :: string

record sentiment_sample =
  smp_timestamp :: int
  smp_score :: rat
  smp_source :: string

record bucket =
  b_date :: int
  b_views :: nat
  b_likes :: nat
  b_shares :: nat
  b_comments :: nat
  b_sentiment :: "rat option"

record analytics_doc =
  an_contentId :: oid
  an_company :: oid
  views :: "view_event list"
  likes :: "engagement_event list"
  shares :: "engagement_event list"
  comments :: "engagement_event list"
  overall_score :: "rat option"
  overall_lastAnalyzed :: "int option"
  history :: "sentiment_sample list"
  timeSeriesData :: "bucket list"
  daily :: "bucket option"

text \<open>\<open>new Analytics({contentId, company})\<close>: empty logs, nothing derived yet.\<close>

definition new_analytics :: "oid \<Rightarrow> oid \<Rightarrow> analytics_doc" where
  "new_analytics i c =
     \<lparr>an_contentId = i, an_company = c, views = [], likes = [], shares = [], comments = [],
      overall_score = None, overall_lastAnalyzed = None, history = [],
      timeSeriesData = [], daily = None\<rparr>"

text \<open>\<open>Date.prototype.toDateString\<close> names the calendar day of a date, and
  \<open>setHours(0, 0, 0, 0)\<close> moves a date to the start of its day. With dates in local
  milliseconds the day is the quotient by the length of a day.\<close>

definition ms_per_day :: int where
  "ms_per_day = 86400000"

definition toDateString :: "int \<Rightarrow> int" where
  "toDateString t = t div ms_per_day"

definition startOfDay :: "int \<Rightarrow> int" where
  "startOfDay t = t - t mod ms_per_day"

definition on_day :: "int \<Rightarrow> int \<Rightarrow> bool" where
  "on_day today t \<longleftrightarrow> toDateString t = toDateString today"

text \<open>The bucket of today, as both \<open>updateTimeSeriesData\<close> and \<open>updateAggregates\<close>
  compute it: the number of raw events of each log whose day is today, and the overall
  sentiment score. Both read the clock; the model gives them the same reading \<open>now\<close>.
  Every event of a log carries its timestamp.\<close>

definition todayMetrics :: "analytics_doc \<Rightarrow> int \<Rightarrow> bucket" where
  "todayMetrics a now =
     (let today = startOfDay now in
      \<lparr>b_date = today,
       b_views = length (filter (\<lambda>v. on_day today (view_timestamp v)) (views a)),
       b_likes = length (filter (\<lambda>l. on_day today (ev_timestamp l)) (likes a)),
       b_shares = length (filter (\<lambda>s. on_day today (ev_timestamp s)) (shares a)),
       b_comments = length (filter (\<lambda>c. on_day today (ev_timestamp c)) (comments a)),
       b_sentiment = overall_score a\<rparr>)"

fun findIndex :: "('a \<Rightarrow> bool) \<Rightarrow> 'a list \<Rightarrow> nat option" where
  "findIndex P [] = None"
| "findIndex P (x # xs) =
     (if P x then Some 0 else (case findIndex P xs of None \<Rightarrow> None | Some i \<Rightarrow> Some (Suc i)))"

definition updateTimeSeriesData :: "analytics_doc \<Rightarrow> int \<Rightarrow> analytics_doc" where
  "updateTimeSeriesData a now =
     (let today = startOfDay now in
      case findIndex (\<lambda>d. on_day today (b_date d)) (timeSeriesData a) of
        Some existingIndex \<Rightarrow>
          a\<lparr>timeSeriesData := (timeSeriesData a)[existingIndex := todayMetrics a now]\<rparr>
      | None \<Rightarrow> a\<lparr>timeSeriesData := timeSeriesData a @ [todayMetrics a now]\<rparr>)"

definition updateAggregates :: "analytics_doc \<Rightarrow> int \<Rightarrow> analytics_doc" where
  "updateAggregates a now =
     (let a' = updateTimeSeriesData a now in a'\<lparr>daily := Some (todayMetrics a' now)\<rparr>)"

text \<open>The three methods that append to a raw log. Each recomputes the aggregates
  before it saves. \<open>addEngagement\<close> indexes the engagement logs by name; any other
  name is a \<open>TypeError\<close> (push on undefined).\<close>

definition addView :: "analytics_doc \<Rightarrow> view_event \<Rightarrow> int \<Rightarrow> analytics_doc" where
  "addView a viewData now = updateAggregates (a\<lparr>views := views a @ [viewData]\<rparr>) now"




text \<open>\<open>Analytics.findOneAndUpdate({contentId}, {$push: {'metrics.views': view}})\<close>:
  the first record of the artifact gets the view appended, and nothing else of it
  changes.\<close>

fun push_view :: "oid \<Rightarrow> view_event \<Rightarrow> analytics_doc list \<Rightarrow> analytics_doc list" where
  "push_view i v [] = []"
| "push_view i v (a # as) =
     (if an_contentId a = i then a\<lparr>views := views a @ [v]\<rparr> # as else a # push_view i v as)"

section \<open>The content controller (backend/controllers/contentController.js)\<close>

text \<open>
  A handler takes the account of the request, the request's parameters, the clock and
  the two collections, and returns the collections as it leaves them with either the
  error passed to \<open>next\<close> or the JSON response. Calls to the completion API are
  parameters: their result is an input of the handler.
\<close>

record db =
  contents :: "content_doc list"
  analytics :: "analytics_doc list"

datatype response =
    ContentResponse string content_doc
  | ContentOnly content_doc
  | MessageOnly string
  | ListResponse "content_doc list" int int nat "int option"
  | VersionsResponse "revision list"
  | VersionResponse revision
  | AnalyticsResponse "bucket list"
  | CountResponse string nat

type_synonym outcome = "db \<times> (api_error + response)"

text \<open>\<open>improveContent\<close>. \<open>improved\<close> is what \<open>aiService.improveContent\<close> returned,
  \<open>None\<close> when it threw.\<close>

definition improveContent ::
  "account \<Rightarrow> oid \<Rightarrow> string \<Rightarrow> string option \<Rightarrow> int \<Rightarrow> db \<Rightarrow> outcome" where
  "improveContent u contentId feedback improved now s =
     (case findById contentId (contents s) of
        None \<Rightarrow> (s, Inl (APIError ''Content not found'' 404))
      | Some c \<Rightarrow>
          if author c \<noteq> user_id u then (s, Inl (APIError ''Unauthorized'' 403))
          else (case improved of
             None \<Rightarrow> (s, Inl (APIError ''Error improving content'' 500))
           | Some improvedContent \<Rightarrow>
               (case addRevision c (user_id u) improvedContent
                       (''Improved based on feedback: '' @ feedback) now (contents s) of
                  Inl e \<Rightarrow> (s, Inl e)
                | Inr (c', cs') \<Rightarrow>
                    (s\<lparr>contents := cs'\<rparr>,
                     Inr (ContentResponse ''Content improved successfully'' c')))))"

text \<open>\<open>getContent\<close>: the company check
  \<open>content.company.toString() !== req.user.company._id.toString()\<close>, which throws a
  \<open>TypeError\<close> when \<open>req.user.company._id\<close> is \<open>undefined\<close>; after it the view is pushed
  straight into the analytics record with \<open>findOneAndUpdate\<close>.\<close>

definition getContent :: "account \<Rightarrow> oid \<Rightarrow> string option \<Rightarrow> int \<Rightarrow> db \<Rightarrow> outcome" where
  "getContent u i agent now s =
     (case findById i (contents s) of
        None \<Rightarrow> (s, Inl (APIError ''Content not found'' 404))
      | Some c \<Rightarrow>
          (case company_id u of
             None \<Rightarrow> (s, Inl (OtherError ''TypeError''))
           | Some k \<Rightarrow>
               if company c \<noteq> k then (s, Inl (APIError ''Unauthorized'' 403))
               else (s\<lparr>analytics :=
                         push_view (doc_id c)
                           \<lparr>view_timestamp = now, view_source = ''api'', userAgent = agent\<rparr>
                           (analytics s)\<rparr>,
                     Inr (ContentOnly c))))"

text \<open>\<open>updateContent\<close>: a revision through \<open>addRevision\<close> (first save), then the new
  body and, when the request has a status, the status (second save). The handler never
  looks at the route's validation result, so the body and the status arrive as sent;
  the second save can fail after the first has been written.\<close>

definition updateContent ::
  "account \<Rightarrow> oid \<Rightarrow> string \<Rightarrow> string option \<Rightarrow> int \<Rightarrow> db \<Rightarrow> outcome" where
  "updateContent u i newContent st now s =
     (case findById i (contents s) of
        None \<Rightarrow> (s, Inl (APIError ''Content not found'' 404))
      | Some c \<Rightarrow>
          if author c \<noteq> user_id u then (s, Inl (APIError ''Unauthorized'' 403))
          else (case addRevision c (user_id u) (content c) ''Manual update'' now (contents s) of
             Inl e \<Rightarrow> (s, Inl e)
           | Inr (c1, cs1) \<Rightarrow>
               (let c2 = c1\<lparr>content := newContent\<rparr>;
                    c3 = (case st of
                            None \<Rightarrow> c2
                          | Some v \<Rightarrow> if v = [] then c2 else c2\<lparr>status := v\<rparr>)
                in case save c3 cs1 of
                     Inl e \<Rightarrow> (s\<lparr>contents := cs1\<rparr>, Inl e)
                   | Inr cs2 \<Rightarrow>
                       (s\<lparr>contents := cs2\<rparr>,
                        Inr (ContentResponse ''Content updated successfully'' c3)))))"

definition deleteContent :: "account \<Rightarrow> oid \<Rightarrow> db \<Rightarrow> outcome" where
  "deleteContent u i s =
     (case findById i (contents s) of
        None \<Rightarrow> (s, Inl (APIError ''Content not found'' 404))
      | Some c \<Rightarrow>
          if author c \<noteq> user_id u then (s, Inl (APIError ''Unauthorized'' 403))
          else (case save (c\<lparr>isArchived := True\<rparr>) (contents s) of
             Inl e \<Rightarrow> (s, Inl e)
           | Inr cs' \<Rightarrow> (s\<lparr>contents := cs'\<rparr>, Inr (MessageOnly ''Content archived successfully''))))"

definition publishContent :: "account \<Rightarrow> oid \<Rightarrow> string list \<Rightarrow> int \<Rightarrow> db \<Rightarrow> outcome" where
  "publishContent u i chs now s =
     (case findById i (contents s) of
        None \<Rightarrow> (s, Inl (APIError ''Content not found'' 404))
      | Some c \<Rightarrow>
          if author c \<noteq> user_id u then (s, Inl (APIError ''Unauthorized'' 403))
          else (let c' = c\<lparr>channels :=
                             map (\<lambda>ch. \<lparr>platform = ch, ch_status = ''published'',
                                        publishedAt = Some now\<rparr>) chs,
                           status := ''published''\<rparr>
                in case save c' (contents s) of
                     Inl e \<Rightarrow> (s, Inl e)
                   | Inr cs' \<Rightarrow>
                       (s\<lparr>contents := cs'\<rparr>,
                        Inr (ContentResponse ''Content published successfully'' c'))))"

definition scheduleContent ::
  "account \<Rightarrow> oid \<Rightarrow> int \<Rightarrow> string \<Rightarrow> string list \<Rightarrow> db \<Rightarrow> outcome" where
  "scheduleContent u i when tz chs s =
     (case findById i (contents s) of
        None \<Rightarrow> (s, Inl (APIError ''Content not found'' 404))
      | Some c \<Rightarrow>
          if author c \<noteq> user_id u then (s, Inl (APIError ''Unauthorized'' 403))
          else (let c' = c\<lparr>schedule := Some \<lparr>publishAt = when, timezone = tz\<rparr>,
                           channels :=
                             map (\<lambda>ch. \<lparr>platform = ch, ch_status = ''pending'',
                                        publishedAt = None\<rparr>) chs\<rparr>
                in case save c' (contents s) of
                     Inl e \<Rightarrow> (s, Inl e)
                   | Inr cs' \<Rightarrow>
                       (s\<lparr>contents := cs'\<rparr>,
                        Inr (ContentResponse ''Content scheduled successfully'' c'))))"

text \<open>\<open>getContentAnalytics\<close> through \<open>Analytics.getByDateRange\<close>: the first record
  of the artifact whose time series has a date from the start on and a date up to the
  end (the two bounds of a query on an array path may be met by different elements),
  projected to its time series. The bounds default to the last thirty days.\<close>

definition getByDateRange :: "oid \<Rightarrow> int \<Rightarrow> int \<Rightarrow> analytics_doc list \<Rightarrow> bucket list option" where
  "getByDateRange i startDate endDate as =
     map_option timeSeriesData
       (find (\<lambda>a. an_contentId a = i \<and>
                   list_ex (\<lambda>b. startDate \<le> b_date b) (timeSeriesData a) \<and>
                   list_ex (\<lambda>b. b_date b \<le> endDate) (timeSeriesData a)) as)"

definition getContentAnalytics ::
  "account \<Rightarrow> oid \<Rightarrow> int option \<Rightarrow> int option \<Rightarrow> int \<Rightarrow> db \<Rightarrow> outcome" where
  "getContentAnalytics u i startDate endDate now s =
     (case getByDateRange i
             (case startDate of Some d \<Rightarrow> d | None \<Rightarrow> now - 30 * 24 * 60 * 60 * 1000)
             (case endDate of Some d \<Rightarrow> d | None \<Rightarrow> now)
             (analytics s) of
        None \<Rightarrow> (s, Inl (APIError ''Analytics not found'' 404))
      | Some ts \<Rightarrow> (s, Inr (AnalyticsResponse ts)))"

definition getContentVersions :: "account \<Rightarrow> oid \<Rightarrow> db \<Rightarrow> outcome" where
  "getContentVersions u i s =
     (case findById i (contents s) of
        None \<Rightarrow> (s, Inl (APIError ''Content not found'' 404))
      | Some c \<Rightarrow> (s, Inr (VersionsResponse (revisions c))))"

text \<open>The version of the route is \<open>parseInt(req.params.version)\<close>; the handlers take
  the parsed number \<open>v\<close>, and the restore takes the parameter's text too, for its
  change note.\<close>

definition getContentVersion :: "account \<Rightarrow> oid \<Rightarrow> int \<Rightarrow> db \<Rightarrow> outcome" where
  "getContentVersion u i v s =
     (case findById i (contents s) of
        None \<Rightarrow> (s, Inl (APIError ''Content not found'' 404))
      | Some c \<Rightarrow>
          (case find (\<lambda>r. rev_version r = v) (revisions c) of
             None \<Rightarrow> (s, Inl (APIError ''Version not found'' 404))
           | Some r \<Rightarrow> (s, Inr (VersionResponse r))))"

definition restoreContentVersion ::
  "account \<Rightarrow> oid \<Rightarrow> string \<Rightarrow> int \<Rightarrow> int \<Rightarrow> db \<Rightarrow> outcome" where
  "restoreContentVersion u i vtext v now s =
     (case findById i (contents s) of
        None \<Rightarrow> (s, Inl (APIError ''Content not found'' 404))
      | Some c \<Rightarrow>
          (case find (\<lambda>r. rev_version r = v) (revisions c) of
             None \<Rightarrow> (s, Inl (APIError ''Version not found'' 404))
           | Some r \<Rightarrow>
               (case addRevision c (user_id u) (content c)
                       (''Restored to version '' @ vtext) now (contents s) of
                  Inl e \<Rightarrow> (s, Inl e)
                | Inr (c1, cs1) \<Rightarrow>
                    (let c2 = c1\<lparr>content := rev_content r\<rparr>
                     in case save c2 cs1 of
                          Inl e \<Rightarrow> (s\<lparr>contents := cs1\<rparr>, Inl e)
                        | Inr cs2 \<Rightarrow>
                            (s\<lparr>contents := cs2\<rparr>,
                             Inr (ContentResponse ''Content version restored successfully'' c2))))))"

text \<open>The bulk operations work on the artifacts that the filter
  \<open>{_id: {$in: contentIds}, company: req.user.company._id}\<close> matches. The company of an
  artifact is a required path, so every stored artifact has one, and a filter whose
  company is \<open>undefined\<close> matches none of them. \<open>bulkPublishContent\<close> saves every
  matched artifact (a save that fails rejects the request, the other saves still run);
  \<open>bulkArchiveContent\<close> is one \<open>updateMany\<close>, which runs no validator. Its count is
  \<open>modifiedCount\<close>: the schema has \<open>timestamps\<close>, so the update also sets \<open>updatedAt\<close>
  and every matched artifact counts as modified, archived before or not.\<close>

definition in_bulk :: "account \<Rightarrow> oid list \<Rightarrow> content_doc \<Rightarrow> bool" where
  "in_bulk u ids c \<longleftrightarrow> doc_id c \<in> set ids \<and> Some (company c) = company_id u"

definition save_any :: "content_doc list \<Rightarrow> content_doc \<Rightarrow> content_doc list" where
  "save_any cs c = (case save c cs of Inl e \<Rightarrow> cs | Inr cs' \<Rightarrow> cs')"

definition bulkPublishContent ::
  "account \<Rightarrow> oid list \<Rightarrow> string list \<Rightarrow> int \<Rightarrow> db \<Rightarrow> outcome" where
  "bulkPublishContent u ids chs now s =
     (let found = filter (in_bulk u ids) (contents s) in
      if found = [] then (s, Inl (APIError ''No content found'' 404))
      else
        (let updated =
               map (\<lambda>c. c\<lparr>channels :=
                            map (\<lambda>ch. \<lparr>platform = ch, ch_status = ''published'',
                                       publishedAt = Some now\<rparr>) chs,
                          status := ''published''\<rparr>) found;
             s' = s\<lparr>contents := foldl save_any (contents s) updated\<rparr>
         in if list_all validate updated
            then (s', Inr (CountResponse ''Contents published successfully'' (length found)))
            else (s', Inl (ValidationError ''Content validation failed''))))"

definition bulkArchiveContent :: "account \<Rightarrow> oid list \<Rightarrow> db \<Rightarrow> outcome" where
  "bulkArchiveContent u ids s =
     (s\<lparr>contents :=
          map (\<lambda>c. if in_bulk u ids c then c\<lparr>isArchived := True\<rparr> else c) (contents s)\<rparr>,
      Inr (CountResponse ''Contents archived successfully''
             (length (filter (in_bulk u ids) (contents s)))))"

text \<open>\<open>listContent\<close>. The query is \<open>{company: req.user.company._id, isArchived: false}\<close>
  with the type and the status when the request names them (an empty string is falsy);
  a company that is \<open>undefined\<close> matches no stored artifact.
  The page is the matching documents, newest first, after \<open>skip\<close> and \<open>limit\<close>: the
  database rejects a negative skip, takes the limit 0 as no limit and a negative limit
  by its absolute value. The total is \<open>countDocuments\<close> of the same query.
  \<open>Math.ceil(total / limit)\<close> is no number when the limit is 0 (\<open>None\<close>).\<close>

definition filter_value :: "string option \<Rightarrow> string \<Rightarrow> bool" where
  "filter_value q v \<longleftrightarrow> (case q of None \<Rightarrow> True | Some w \<Rightarrow> w = [] \<or> v = w)"

definition list_query :: "account \<Rightarrow> string option \<Rightarrow> string option \<Rightarrow> content_doc \<Rightarrow> bool" where
  "list_query u ty st c \<longleftrightarrow>
     Some (company c) = company_id u \<and> isArchived c = False \<and>
     filter_value ty (ctype c) \<and> filter_value st (status c)"

definition newest_first :: "content_doc list \<Rightarrow> content_doc list" where
  "newest_first cs = rev (sort_key createdAt cs)"

definition limit_docs :: "int \<Rightarrow> 'a list \<Rightarrow> 'a list" where
  "limit_docs n xs = (if n = 0 then xs else take (nat \<bar>n\<bar>) xs)"

definition listContent ::
  "account \<Rightarrow> string option \<Rightarrow> string option \<Rightarrow> int option \<Rightarrow> int option \<Rightarrow> db \<Rightarrow> outcome" where
  "listContent u ty st page_param limit_param s =
     (let page = (case page_param of None \<Rightarrow> 1 | Some p \<Rightarrow> p);
          limit = (case limit_param of None \<Rightarrow> 10 | Some l \<Rightarrow> l);
          skip = (page - 1) * limit
      in if skip < 0 then (s, Inl (OtherError ''Skip value must be non-negative''))
         else
           (let found = limit_docs limit
                          (drop (nat skip) (newest_first (filter (list_query u ty st) (contents s))));
                total = length (filter (list_query u ty st) (contents s))
            in (s, Inr (ListResponse found page limit total
                          (if limit = 0 then None else Some (- ((- int total) div limit)))))))"

section \<open>The content routes (backend/routes/content.js)\<close>

text \<open>A request names a route and carries its parameters. Every route is behind
  \<open>authenticateToken\<close>, which supplies the account; the two bulk routes are declared
  behind \<open>checkRole(['admin'])\<close> as well. The router takes the first route that matches
  the path: \<open>POST /bulk/publish\<close> is matched by \<open>POST /:id/publish\<close>, which is declared
  before it, so the request runs \<open>publishContent\<close> with the id \<open>bulk\<close>, where
  \<open>Content.findById\<close> fails to cast the id (a \<open>CastError\<close>), and \<open>bulkPublishContent\<close>
  is never called. No other route is shadowed. The routes of the Figma
  synchronisation and of the generation are not modelled.\<close>

datatype request =
    Improve oid string "string option"
  | ListContent "string option" "string option" "int option" "int option"
  | GetContent oid "string option"
  | UpdateContent oid string "string option"
  | DeleteContent oid
  | PublishContent oid "string list"
  | ScheduleContent oid int string "string list"
  | GetContentAnalytics oid "int option" "int option"
  | GetContentVersions oid
  | GetContentVersion oid int
  | RestoreContentVersion oid string int
  | BulkPublish "oid list" "string list"
  | BulkArchive "oid list"

definition checkRole :: "string list \<Rightarrow> account \<Rightarrow> outcome \<Rightarrow> db \<Rightarrow> outcome" where
  "checkRole roles u continue s =
     (if role u \<in> set roles then continue else (s, Inl (APIError ''Unauthorized access'' 403)))"

fun handle :: "account \<Rightarrow> int \<Rightarrow> request \<Rightarrow> db \<Rightarrow> outcome" where
  "handle u now (Improve i feedback improved) s = improveContent u i feedback improved now s"
| "handle u now (ListContent ty st page limit) s = listContent u ty st page limit s"
| "handle u now (GetContent i agent) s = getContent u i agent now s"
| "handle u now (UpdateContent i body st) s = updateContent u i body st now s"
| "handle u now (DeleteContent i) s = deleteContent u i s"
| "handle u now (PublishContent i chs) s = publishContent u i chs now s"
| "handle u now (ScheduleContent i when tz chs) s = scheduleContent u i when tz chs s"
| "handle u now (GetContentAnalytics i startDate endDate) s =
     getContentAnalytics u i startDate endDate now s"
| "handle u now (GetContentVersions i) s = getContentVersions u i s"
| "handle u now (GetContentVersion i v) s = getContentVersion u i v s"
| "handle u now (RestoreContentVersion i vtext v) s = restoreContentVersion u i vtext v now s"
| "handle u now (BulkPublish ids chs) s = (s, Inl (OtherError ''CastError''))"
| "handle u now (BulkArchive ids) s = checkRole [''admin''] u (bulkArchiveContent u ids s) s"

text \<open>A sequence of requests, each by its own account at its own time, run one after
  the other on the collections.\<close>

fun run :: "(account \<times> int \<times> request) list \<Rightarrow> db \<Rightarrow> db" where
  "run [] s = s"
| "run ((u, now, r) # rs) s = run rs (fst (handle u now r s))"

section \<open>The generation service (utils/aiService.js)\<close>

text \<open>
  The parameters of a generation are an object; it is the list of its entries in key
  order. A value is a text or, for the entry \<open>generationParams\<close>, an object of numbers;
  \<open>String.prototype.replace\<close> coerces the value it inserts to a string. An entry
  \<open>generationParams\<close> that is a text overrides no default.
\<close>

datatype param = PText string | PObject "(string \<times> rat) list"

fun param_text :: "param \<Rightarrow> string" where
  "param_text (PText t) = t"
| "param_text (PObject kvs) = ''[object Object]''"

definition newline :: char where
  "newline = CHR 0x0A"

definition promptTemplates :: "(string \<times> string) list" where
  "promptTemplates =
     [(''blog'',
         ''Write a professional blog post about {topic}. '' @ [newline] @
         ''                  Tone: {tone}'' @ [newline] @
         ''                  Target audience: {audience}'' @ [newline] @
         ''                  Key points to cover: {points}''),
      (''social_post'',
         ''Create a engaging social media post about {topic}.'' @ [newline] @
         ''                         Platform: {platform}'' @ [newline] @
         ''                         Tone: {tone}'' @ [newline] @
         ''                         Include hashtags: {hashtags}''),
      (''email'',
         ''Write a {type} email about {topic}.'' @ [newline] @
         ''                    Tone: {tone}'' @ [newline] @
         ''                    Target audience: {audience}'' @ [newline] @
         ''                    Call to action: {cta}''),
      (''design_doc'',
         ''Create a detailed design documentation for {topic}.'' @ [newline] @
         ''                        Include sections for:'' @ [newline] @
         ''                        - Overview'' @ [newline] @
         ''                        - Technical specifications'' @ [newline] @
         ''                        - Implementation details'' @ [newline] @
         ''                        - Design considerations''),
      (''changelog'',
         ''Write a changelog entry for {topic}.'' @ [newline] @
         ''                       Type: {type}'' @ [newline] @
         ''                       Version: {version}'' @ [newline] @
         ''                       Include sections for:'' @ [newline] @
         ''                       - New features'' @ [newline] @
         ''                       - Improvements'' @ [newline] @
         ''                       - Bug fixes''),
      (''internal_comm'',
         ''Create an internal communication about {topic}.'' @ [newline] @
         ''                          Type: {type}'' @ [newline] @
         ''                          Audience: {audience}'' @ [newline] @
         ''                          Key message: {message}'')]"

text \<open>\<open>template.replace(new RegExp(`{${key}}`, 'g'), value)\<close>: every occurrence of the
  placeholder, found from left to right without overlap, is replaced by the value. The
  model reads the pattern as the literal text \<open>{key}\<close> and the value as a literal
  replacement; that is what the regular expression does for a key made of word
  characters that is not a number, and a value without a dollar sign.\<close>

definition placeholder :: "string \<Rightarrow> string" where
  "placeholder key = CHR ''{'' # key @ ''}''"

fun substitute :: "string \<Rightarrow> string \<Rightarrow> string \<Rightarrow> string" where
  "substitute key v [] = []"
| "substitute key v (c # cs) =
     (if prefix (placeholder key) (c # cs)
      then v @ substitute key v (drop (Suc (length key)) cs)
      else c # substitute key v cs)"

text \<open>\<open>formatPrompt\<close>: the template of the type, with one replacement per key of the
  parameters, in key order. A type without a template gives \<open>undefined\<close>, and the
  first replacement on it throws a \<open>TypeError\<close>.\<close>

definition formatPrompt :: "string \<Rightarrow> (string \<times> param) list \<Rightarrow> api_error + string option" where
  "formatPrompt ty params =
     (case map_of promptTemplates ty of
        None \<Rightarrow> if params = [] then Inr None else Inl (OtherError ''TypeError'')
      | Some template \<Rightarrow>
          Inr (Some (fold (\<lambda>(key, v) t. substitute key (param_text v) t) params template)))"

definition defaultParams :: "(string \<times> rat) list" where
  "defaultParams =
     [(''temperature'', 7 / 10), (''maxTokens'', 1000), (''topP'', 1),
      (''frequencyPenalty'', 0), (''presencePenalty'', 0)]"

text \<open>\<open>{...this.defaultParams, ...params.generationParams}\<close>\<close>

definition spread :: "(string \<times> rat) list \<Rightarrow> (string \<times> rat) list \<Rightarrow> (string \<times> rat) list" where
  "spread base over =
     map (\<lambda>(k, v). (k, case map_of over k of None \<Rightarrow> v | Some w \<Rightarrow> w)) base @
     filter (\<lambda>(k, v). map_of base k = None) over"

definition generationParams_of :: "(string \<times> param) list \<Rightarrow> (string \<times> rat) list" where
  "generationParams_of params =
     (case map_of params ''generationParams'' of Some (PObject kvs) \<Rightarrow> kvs | _ \<Rightarrow> [])"

text \<open>The completion API is outside the repository: its answer to a prompt is a
  function given to the model. It answers with a text and the token usage, fails with
  an HTTP response (\<open>error.response\<close>), or fails otherwise.\<close>

datatype completion = Completion string nat | ResponseError string | OtherFailure

record generated =
  gen_content :: string
  gen_prompt :: "string option"
  aiModel :: string
  generationParams :: "(string \<times> rat) list"
  processingTime :: int
  usage :: nat

definition generateContent ::
  "(string option \<Rightarrow> (string \<times> rat) list \<Rightarrow> completion) \<Rightarrow> string \<Rightarrow> (string \<times> param) list
     \<Rightarrow> int \<Rightarrow> int \<Rightarrow> api_error + generated" where
  "generateContent openai ty params startTime endTime =
     (case formatPrompt ty params of
        Inl e \<Rightarrow> Inl (APIError ''Error generating content'' 500)
      | Inr prompt \<Rightarrow>
          (let gp = spread defaultParams (generationParams_of params)
           in case openai prompt gp of
                Completion text tokens \<Rightarrow>
                  Inr \<lparr>gen_content = text, gen_prompt = prompt, aiModel = ''gpt-4'',
                       generationParams = gp, processingTime = endTime - startTime,
                       usage = tokens\<rparr>
              | ResponseError msg \<Rightarrow> Inl (APIError (''OpenAI API Error: '' @ msg) 503)
              | OtherFailure \<Rightarrow> Inl (APIError ''Error generating content'' 500)))"

text \<open>The names a parameter key may have for the literal reading of the pattern to be
  exact: word characters, not all of them digits.\<close>

definition word_char :: "char \<Rightarrow> bool" where
  "word_char c \<longleftrightarrow>
     c \<in> set ''abcdefghijklmnopqrstuvwxyzABCDEFGHIJKLMNOPQRSTUVWXYZ0123456789_''"

definition digit_char :: "char \<Rightarrow> bool" where
  "digit_char c \<longleftrightarrow> c \<in> set ''0123456789''"

definition plain_key :: "string \<Rightarrow> bool" where
  "plain_key k \<longleftrightarrow> list_all word_char k \<and> \<not> list_all digit_char k"

definition plain_value :: "param \<Rightarrow> bool" where
  "plain_value v \<longleftrightarrow> CHR ''$'' \<notin> set (param_text v)"

section \<open>The percentage change (controllers/analyticsController.js)\<close>

text \<open>Metric values are JavaScript numbers, modelled as exact rationals.\<close>

definition calculatePercentageChange :: "rat \<Rightarrow> rat \<Rightarrow> rat" where
  "calculatePercentageChange oldValue newValue =
     (if oldValue = 0 then (if newValue = 0 then 0 else 100)
      else ((newValue - oldValue) / oldValue) * 100)"

section \<open>The design-tool service (utils/figmaService.js)\<close>

text \<open>
  A file of the design tool is a tree of nodes, parsed from JSON. A node is modelled
  by the properties \<open>extractDesignTokens\<close> reads: its fills, the four properties of
  its text style, its four paddings, its effects and its children. An absent array is
  the empty list (\<open>forEach\<close> does nothing on either). Colour components are doubles;
  a finite double is a rational number, and the components are modelled as the
  rationals they are. The product of two doubles is the double next to the exact
  product, which the exact product need not be: the multiplication \<open>mul\<close> of doubles is
  a parameter of the conversion.
\<close>

datatype json =
    JNull
  | JBool bool
  | JNum rat
  | JStr string
  | JArr "json list"
  | JObj "(string \<times> json) list"

record rgb =
  col_r :: rat
  col_g :: rat
  col_b :: rat

datatype paint = Paint (paint_type: string) (paint_color: rgb)

record text_style =
  fontFamily :: "json option"
  fontSize :: "json option"
  fontWeight :: "json option"
  lineHeight :: "json option"

record padding =
  pad_top :: json
  pad_right :: "json option"
  pad_bottom :: "json option"
  pad_left :: "json option"

datatype node =
  Node (fills: "paint list") (style: "text_style option") (paddingTop: "json option")
    (paddingRight: "json option") (paddingBottom: "json option") (paddingLeft: "json option")
    (effects: "json list") (children: "node list")

text \<open>\<open>rgbToHex\<close>. \<open>Math.round\<close> rounds half up, exactly; \<open><<\<close> works on 32-bit signed
  integers; \<open>toString(16)\<close> writes the digits of the absolute value after the sign;
  \<open>slice(1)\<close> drops the first character.\<close>

definition math_round :: "rat \<Rightarrow> int" where
  "math_round x = \<lfloor>x + 1 / 2\<rfloor>"

definition toInt32 :: "int \<Rightarrow> int" where
  "toInt32 x = (x + 2 ^ 31) mod 2 ^ 32 - 2 ^ 31"

definition shiftLeft :: "int \<Rightarrow> nat \<Rightarrow> int" where
  "shiftLeft x n = toInt32 (toInt32 x * 2 ^ (n mod 32))"

definition hex_digit :: "nat \<Rightarrow> char" where
  "hex_digit d = ''0123456789abcdef'' ! (d mod 16)"

fun hex_digits :: "nat \<Rightarrow> string" where
  "hex_digits n = (if n < 16 then [hex_digit n] else hex_digits (n div 16) @ [hex_digit n])"

text \<open>The equation of \<open>hex_digits\<close> rewrites its own right-hand side, so it is not a
  simplification rule.\<close>

declare hex_digits.simps [simp del]

definition toString16 :: "int \<Rightarrow> string" where
  "toString16 x = (if x < 0 then CHR ''-'' # hex_digits (nat (- x)) else hex_digits (nat x))"

definition rgbToHex :: "(rat \<Rightarrow> rat \<Rightarrow> rat) \<Rightarrow> rgb \<Rightarrow> string" where
  "rgbToHex mul color =
     (let r = math_round (mul (col_r color) 255);
          g = math_round (mul (col_g color) 255);
          b = math_round (mul (col_b color) 255)
      in CHR ''#'' # drop 1 (toString16 (shiftLeft 1 24 + shiftLeft r 16 + shiftLeft g 8 + b)))"

text \<open>The four token sets. A JavaScript \<open>Set\<close> keeps its members without repetition
  in insertion order, so it is a list with \<open>set_add\<close>. The sets of typography, spacing
  and effects hold \<open>JSON.stringify\<close> of a descriptor and the result maps \<open>JSON.parse\<close>
  over them; since the two are inverse to each other on these descriptors, the sets are
  modelled as holding the descriptors themselves, equal when they are the same JSON
  value (key order included).\<close>

definition set_add :: "'a \<Rightarrow> 'a list \<Rightarrow> 'a list" where
  "set_add x xs = (if x \<in> set xs then xs else xs @ [x])"

record tokens =
  colors :: "string list"
  typography :: "text_style list"
  spacing :: "padding list"
  tk_effects :: "json list"

definition no_tokens :: tokens where
  "no_tokens = \<lparr>colors = [], typography = [], spacing = [], tk_effects = []\<rparr>"

definition add_fill :: "(rat \<Rightarrow> rat \<Rightarrow> rat) \<Rightarrow> paint \<Rightarrow> tokens \<Rightarrow> tokens" where
  "add_fill mul fill tk =
     (if paint_type fill = ''SOLID''
      then tk\<lparr>colors := set_add (rgbToHex mul (paint_color fill)) (colors tk)\<rparr>
      else tk)"

definition add_effect :: "json \<Rightarrow> tokens \<Rightarrow> tokens" where
  "add_effect effect tk = tk\<lparr>tk_effects := set_add effect (tk_effects tk)\<rparr>"

fun traverseNodes :: "(rat \<Rightarrow> rat \<Rightarrow> rat) \<Rightarrow> node \<Rightarrow> tokens \<Rightarrow> tokens" where
  "traverseNodes mul (Node fs st pt pr pb pl es cs) tk =
     (let t1 = fold (add_fill mul) fs tk;
          t2 = (case st of
                  None \<Rightarrow> t1
                | Some sty \<Rightarrow> t1\<lparr>typography := set_add sty (typography t1)\<rparr>);
          t3 = (case pt of
                  None \<Rightarrow> t2
                | Some ptop \<Rightarrow>
                    t2\<lparr>spacing :=
                         set_add \<lparr>pad_top = ptop, pad_right = pr, pad_bottom = pb, pad_left = pl\<rparr>
                           (spacing t2)\<rparr>);
          t4 = fold add_effect es t3
      in fold (\<lambda>child t. traverseNodes mul child t) cs t4)"

text \<open>The answer of the design tool to \<open>GET /files/:id\<close> is an input: the document,
  an HTTP error with its status and message, or no answer. \<open>getFile\<close> maps a failure
  through \<open>handleError\<close>; \<open>extractDesignTokens\<close> catches that error and maps it through
  \<open>handleError\<close> once more, where it has no \<open>response\<close>.\<close>

datatype file_answer = FileData node | HttpError nat string | NoAnswer

definition handleError :: "(nat \<times> string) option \<Rightarrow> api_error" where
  "handleError response =
     (case response of
        None \<Rightarrow> APIError ''Error connecting to Figma API'' 500
      | Some (st, message) \<Rightarrow>
          if st = 401 then APIError ''Unauthorized: Invalid Figma access token'' 401
          else if st = 403 then APIError ''Forbidden: Insufficient permissions'' 403
          else if st = 404 then APIError ''Not found: Invalid file or node ID'' 404
          else if st = 429 then APIError ''Too many requests: Rate limit exceeded'' 429
          else APIError (''Figma API Error: '' @ message) st)"

definition getFile :: "file_answer \<Rightarrow> api_error + node" where
  "getFile answer =
     (case answer of
        FileData document \<Rightarrow> Inr document
      | HttpError st message \<Rightarrow> Inl (handleError (Some (st, message)))
      | NoAnswer \<Rightarrow> Inl (handleError None))"

definition extractDesignTokens ::
  "(rat \<Rightarrow> rat \<Rightarrow> rat) \<Rightarrow> file_answer \<Rightarrow> api_error + tokens" where
  "extractDesignTokens mul answer =
     (case getFile answer of
        Inl e \<Rightarrow> Inl (handleError None)
      | Inr document \<Rightarrow> Inr (traverseNodes mul document no_tokens))"

text \<open>The colours of the solid fills of a tree, and what a normalised colour is.\<close>

fun solid_colors :: "node \<Rightarrow> rgb list" where
  "solid_colors (Node fs st pt pr pb pl es cs) =
     map paint_color (filter (\<lambda>f. paint_type f = ''SOLID'') fs) @
     concat (map (\<lambda>child. solid_colors child) cs)"

definition normalized :: "rgb \<Rightarrow> bool" where
  "normalized c \<longleftrightarrow>
     0 \<le> col_r c \<and> col_r c \<le> 1 \<and> 0 \<le> col_g c \<and> col_g c \<le> 1 \<and> 0 \<le> col_b c \<and> col_b c \<le> 1"

definition hex_char :: "char \<Rightarrow> bool" where
  "hex_char c \<longleftrightarrow> c \<in> set ''0123456789abcdef''"

definition hex_color :: "string \<Rightarrow> bool" where
  "hex_color h \<longleftrightarrow> length h = 7 \<and> take 1 h = ''#'' \<and> list_all hex_char (drop 1 h)"

section \<open>Accounts (backend/models/User.js)\<close>

text \<open>
  An account document with the paths of the schema. \<open>toObject\<close> gives the plain
  object of the document: the list of its entries, a path that is not set having no
  entry (the version key and the two timestamps that mongoose adds are left out).
  \<open>toJSON\<close> deletes three entries of it.
\<close>

record figma_integration =
  accessToken :: "string option"
  refreshToken :: "string option"
  tokenExpiry :: "int option"
  lastSync :: "int option"

record user_doc =
  u_id :: oid
  email :: string
  password :: string
  name :: string
  u_role :: string
  company_name :: string
  company_position :: "string option"
  pref_tone :: string
  pref_language :: string
  notify_email :: bool
  notify_contentGeneration :: bool
  notify_figmaSync :: bool
  figmaIntegration :: "figma_integration option"
  apiKey :: "string option"
  lastLogin :: "int option"
  isActive :: bool

text \<open>\<open>authenticateToken\<close> (middlewares/authMiddleware.js) sets \<open>req.user\<close> to the
  account document that \<open>User.findById\<close> returned. In the schema \<open>company\<close> is a nested
  path with the sub-paths \<open>name\<close> and \<open>position\<close>: it is no document of its own and has
  no \<open>_id\<close>, so \<open>req.user.company._id\<close> is \<open>undefined\<close> whoever the account is.\<close>

definition req_user :: "user_doc \<Rightarrow> account" where
  "req_user d = \<lparr>user_id = u_id d, company_id = None, role = u_role d\<rparr>"

definition entry :: "string \<Rightarrow> ('a \<Rightarrow> json) \<Rightarrow> 'a option \<Rightarrow> (string \<times> json) list" where
  "entry k f v = (case v of None \<Rightarrow> [] | Some x \<Rightarrow> [(k, f x)])"

definition figma_object :: "figma_integration \<Rightarrow> json" where
  "figma_object f =
     JObj (entry ''accessToken'' JStr (accessToken f) @
           entry ''refreshToken'' JStr (refreshToken f) @
           entry ''tokenExpiry'' (\<lambda>t. JNum (of_int t)) (tokenExpiry f) @
           entry ''lastSync'' (\<lambda>t. JNum (of_int t)) (lastSync f))"

definition toObject :: "user_doc \<Rightarrow> (string \<times> json) list" where
  "toObject u =
     [(''_id'', JNum (of_nat (u_id u))),
      (''email'', JStr (email u)),
      (''password'', JStr (password u)),
      (''name'', JStr (name u)),
      (''role'', JStr (u_role u)),
      (''company'',
         JObj ((''name'', JStr (company_name u)) #
               entry ''position'' JStr (company_position u))),
      (''settings'',
         JObj [(''contentPreferences'',
                  JObj [(''tone'', JStr (pref_tone u)), (''language'', JStr (pref_language u))]),
               (''notifications'',
                  JObj [(''email'', JBool (notify_email u)),
                        (''contentGeneration'', JBool (notify_contentGeneration u)),
                        (''figmaSync'', JBool (notify_figmaSync u))])])] @
     entry ''figmaIntegration'' figma_object (figmaIntegration u) @
     entry ''apiKey'' JStr (apiKey u) @
     entry ''lastLogin'' (\<lambda>t. JNum (of_int t)) (lastLogin u) @
     [(''isActive'', JBool (isActive u))]"

text \<open>\<open>delete obj.key\<close>\<close>

definition delete_key :: "string \<Rightarrow> (string \<times> json) list \<Rightarrow> (string \<times> json) list" where
  "delete_key k obj = filter (\<lambda>(k', v). k' \<noteq> k) obj"

definition strip_sensitive :: "(string \<times> json) list \<Rightarrow> (string \<times> json) list" where
  "strip_sensitive obj =
     delete_key ''figmaIntegration'' (delete_key ''apiKey'' (delete_key ''password'' obj))"

definition toJSON :: "user_doc \<Rightarrow> (string \<times> json) list" where
  "toJSON u = strip_sensitive (toObject u)"

text \<open>Every key of a JSON value, at any depth.\<close>

fun keys_of :: "json \<Rightarrow> string list" where
  "keys_of (JObj kvs) = concat (map (\<lambda>(k, v). k # keys_of v) kvs)"
| "keys_of (JArr xs) = concat (map (\<lambda>x. keys_of x) xs)"
| "keys_of v = []"

section \<open>Properties: vocabulary and sample data\<close>

text \<open>The requests that change the body of the artifact \<open>i\<close>.\<close>

fun edits :: "oid \<Rightarrow> request \<Rightarrow> bool" where
  "edits i (Improve j feedback improved) = (j = i)"
| "edits i (UpdateContent j body st) = (j = i)"
| "edits i (RestoreContentVersion j vtext v) = (j = i)"
| "edits i r = False"

text \<open>\<open>appended c c'\<close>: the revisions of \<open>c'\<close> are those of \<open>c\<close> and one more, which
  holds the body and the version of \<open>c\<close>; the version of \<open>c'\<close> is one more.\<close>

definition appended :: "content_doc \<Rightarrow> content_doc \<Rightarrow> bool" where
  "appended c c' \<longleftrightarrow>
     (\<exists>rv. revisions c' = revisions c @ [rv] \<and> rev_content rv = content c \<and>
           rev_version rv = version c) \<and>
     version c' = version c + 1"

text \<open>Two account documents of two companies and the accounts that the middleware
  attaches for them; an artifact written by the first (the company path of an artifact
  holds an object id), and the collections that hold it with its analytics record.\<close>

definition alice_doc :: user_doc where
  "alice_doc =
     \<lparr>u_id = 1, email = ''alice@acme.example'', password = ''$2a$10$alice'', name = ''Alice'',
      u_role = ''user'', company_name = ''Acme'', company_position = None,
      pref_tone = ''professional'', pref_language = ''en'', notify_email = True,
      notify_contentGeneration = True, notify_figmaSync = True, figmaIntegration = None,
      apiKey = None, lastLogin = None, isActive = True\<rparr>"

definition bob_doc :: user_doc where
  "bob_doc =
     \<lparr>u_id = 2, email = ''bob@globex.example'', password = ''$2a$10$bob'', name = ''Bob'',
      u_role = ''user'', company_name = ''Globex'', company_position = None,
      pref_tone = ''casual'', pref_language = ''en'', notify_email = True,
      notify_contentGeneration = True, notify_figmaSync = True, figmaIntegration = None,
      apiKey = None, lastLogin = None, isActive = True\<rparr>"

definition alice :: account where
  "alice = req_user alice_doc"

definition bob :: account where
  "bob = req_user bob_doc"

definition draft1 :: content_doc where
  "draft1 = new_content 1 ''blog'' ''Hello'' 1 10 1000"

definition db0 :: db where
  "db0 = \<lparr>contents = [draft1], analytics = [new_analytics 1 10]\<rparr>"

text \<open>The artifact after one manual update by its author, with its time series; a
  view of it; an archived artifact of the same author and an artifact of the other
  account.\<close>

definition revision1 :: revision where
  "revision1 = \<lparr>rev_content = ''Hello'', modifiedBy = 1, modifiedAt = 2000, rev_version = 1,
     changeLog = ''Manual update''\<rparr>"

definition edited1 :: content_doc where
  "edited1 = draft1\<lparr>content := ''New body'', version := 2, revisions := [revision1]\<rparr>"

definition bucket1 :: bucket where
  "bucket1 = \<lparr>b_date = 0, b_views = 3, b_likes = 1, b_shares = 0, b_comments = 0,
     b_sentiment = None\<rparr>"

definition db1 :: db where
  "db1 = \<lparr>contents = [edited1],
     analytics = [(new_analytics 1 10)\<lparr>timeSeriesData := [bucket1]\<rparr>]\<rparr>"


definition archived2 :: content_doc where
  "archived2 = (new_content 2 ''email'' ''Old news'' 1 10 500)\<lparr>isArchived := True\<rparr>"

definition foreign3 :: content_doc where
  "foreign3 = new_content 3 ''blog'' ''Other company'' 2 20 1500"

definition db2 :: db where
  "db2 = \<lparr>contents = [draft1, archived2, foreign3], analytics = []\<rparr>"

text \<open>The keys that hold a credential in the plain object of an account, and an
  account that has all of them.\<close>

definition sensitive_keys :: "string list" where
  "sensitive_keys =
     [''password'', ''apiKey'', ''figmaIntegration'', ''accessToken'', ''refreshToken'']"

definition carol :: user_doc where
  "carol =
     \<lparr>u_id = 7, email = ''carol@example.com'', password = ''$2a$10$hash'', name = ''Carol'',
      u_role = ''admin'', company_name = ''Acme'', company_position = Some ''CTO'',
      pref_tone = ''professional'', pref_language = ''en'', notify_email = True,
      notify_contentGeneration = True, notify_figmaSync = False,
      figmaIntegration =
        Some \<lparr>accessToken = Some ''figd_secret'', refreshToken = Some ''refresh'',
              tokenExpiry = Some 99, lastSync = None\<rparr>,
      apiKey = Some ''abcdef'', lastLogin = None, isActive = True\<rparr>"

text \<open>The requests on the artifact \<open>i\<close> whose handlers compare the account with the
  author or the company of the artifact.\<close>

fun checked :: "oid \<Rightarrow> request \<Rightarrow> bool" where
  "checked i (Improve j feedback improved) = (j = i)"
| "checked i (GetContent j agent) = (j = i)"
| "checked i (UpdateContent j body st) = (j = i)"
| "checked i (DeleteContent j) = (j = i)"
| "checked i (PublishContent j chs) = (j = i)"
| "checked i (ScheduleContent j when tz chs) = (j = i)"
| "checked i r = False"

text \<open>A name without braces; the parameters that the controller passes when the request
  has none of its own (the prompt and the tone of the account); a completion API that
  always answers.\<close>

definition brace_free :: "string \<Rightarrow> bool" where
  "brace_free k \<longleftrightarrow> CHR ''{'' \<notin> set k \<and> CHR ''}'' \<notin> set k"

definition launch_params :: "(string \<times> param) list" where
  "launch_params = [(''prompt'', PText ''Announce v2 launch''), (''tone'', PText ''professional'')]"

definition echo_api :: "string option \<Rightarrow> (string \<times> rat) list \<Rightarrow> completion" where
  "echo_api prompt gp = Completion ''Generated text'' 42"

text \<open>\<open>moved u r i c c'\<close>: what the request \<open>r\<close> of the account \<open>u\<close> may have made of the
  artifact \<open>c\<close> with id \<open>i\<close>. Its status is as it was, or \<open>u\<close> is its author and
  either \<open>r\<close> publishes this artifact and the status is \<open>published\<close>, or \<open>r\<close> updates
  this artifact and the status is the one that \<open>r\<close> names. Its archive flag is as it
  was, or it is set and either \<open>u\<close> is the author and \<open>r\<close> deletes this artifact, or
  \<open>u\<close> is an administrator and \<open>r\<close> is a bulk archive whose filter matches the
  artifact.\<close>

definition moved :: "account \<Rightarrow> request \<Rightarrow> oid \<Rightarrow> content_doc \<Rightarrow> content_doc \<Rightarrow> bool" where
  "moved u r i c c' \<longleftrightarrow>
     (status c' = status c \<or>
      (author c = user_id u \<and> (\<exists>chs. r = PublishContent i chs) \<and> status c' = ''published'') \<or>
      (author c = user_id u \<and> (\<exists>body v. r = UpdateContent i body (Some v) \<and> status c' = v))) \<and>
     (isArchived c' = isArchived c \<or>
      (isArchived c' \<and> author c = user_id u \<and> r = DeleteContent i) \<or>
      (isArchived c' \<and> role u = ''admin'' \<and> (\<exists>ids. r = BulkArchive ids \<and> in_bulk u ids c)))"

text \<open>\<open>kept\<close>: the status and the archive flag are as they were.
  \<open>reshapes j R cs cs'\<close>: the collection \<open>cs'\<close> has the ids of \<open>cs\<close>, in the same order, and
  the same artifact under every id but \<open>j\<close>, where the two are related by \<open>R\<close>.
  \<open>evolves M cs cs'\<close>: the same ids, and under every id artifacts related by \<open>M\<close>.\<close>

definition kept :: "content_doc \<Rightarrow> content_doc \<Rightarrow> bool" where
  "kept c c' \<longleftrightarrow> status c' = status c \<and> isArchived c' = isArchived c"

definition reshapes :: "oid \<Rightarrow> (content_doc \<Rightarrow> content_doc \<Rightarrow> bool) \<Rightarrow> content_doc list \<Rightarrow> content_doc list \<Rightarrow> bool" where
  "reshapes j R cs cs' \<longleftrightarrow>
     map doc_id cs' = map doc_id cs \<and>
     (\<forall>i c. findById i cs = Some c \<longrightarrow> (\<exists>c'. findById i cs' = Some c' \<and> (if i = j then R c c' else c' = c)))"

definition evolves ::
  "(oid \<Rightarrow> content_doc \<Rightarrow> content_doc \<Rightarrow> bool) \<Rightarrow> content_doc list \<Rightarrow> content_doc list \<Rightarrow> bool" where
  "evolves M cs cs' \<longleftrightarrow>
     map doc_id cs' = map doc_id cs \<and>
     (\<forall>i c. findById i cs = Some c \<longrightarrow> (\<exists>c'. findById i cs' = Some c' \<and> M i c c'))"

text \<open>The tokens hold no value twice. The text styles, the paddings and the effects of
  a tree, as the traversal meets them.\<close>

definition no_duplicates :: "tokens \<Rightarrow> bool" where
  "no_duplicates tk \<longleftrightarrow>
     distinct (colors tk) \<and> distinct (typography tk) \<and> distinct (spacing tk) \<and>
     distinct (tk_effects tk)"

fun styles_of :: "node \<Rightarrow> text_style list" where
  "styles_of (Node fs st pt pr pb pl es cs) =
     (case st of None \<Rightarrow> [] | Some sty \<Rightarrow> [sty]) @ concat (map (\<lambda>child. styles_of child) cs)"

fun paddings_of :: "node \<Rightarrow> padding list" where
  "paddings_of (Node fs st pt pr pb pl es cs) =
     (case pt of
        None \<Rightarrow> []
      | Some ptop \<Rightarrow> [\<lparr>pad_top = ptop, pad_right = pr, pad_bottom = pb, pad_left = pl\<rparr>]) @
     concat (map (\<lambda>child. paddings_of child) cs)"

fun effects_of :: "node \<Rightarrow> json list" where
  "effects_of (Node fs st pt pr pb pl es cs) = es @ concat (map (\<lambda>child. effects_of child) cs)"

text \<open>A colour, and a file whose only node has two solid fills of that colour.\<close>

definition orange :: rgb where
  "orange = \<lparr>col_r = 1, col_g = 1 / 2, col_b = 0\<rparr>"

definition two_fills :: node where
  "two_fills = Node [Paint ''SOLID'' orange, Paint ''SOLID'' orange] None None None None None [] []"




text \<open>The two hex digits of a byte. Structural equality of JSON values: two objects are
  the same when they have the same keys and the same values under them, in whatever
  order the keys are written.\<close>

definition hex_pair :: "nat \<Rightarrow> string" where
  "hex_pair n = [hex_digit (n div 16), hex_digit n]"

fun same_json :: "json \<Rightarrow> json \<Rightarrow> bool" where
  "same_json (JObj xs) (JObj ys) =
     (set (map fst xs) = set (map fst ys) \<and>
      list_all (\<lambda>(k, v). case map_of ys k of None \<Rightarrow> False | Some w \<Rightarrow> same_json v w) xs)"
| "same_json (JArr xs) (JArr ys) = list_all2 (\<lambda>x y. same_json x y) xs ys"
| "same_json a b = (a = b)"

text \<open>One drop shadow, written with its keys in two orders, and a file whose only node
  has both as effects.\<close>

definition shadow_a :: json where
  "shadow_a = JObj [(''type'', JStr ''DROP_SHADOW''), (''radius'', JNum 4)]"

definition shadow_b :: json where
  "shadow_b = JObj [(''radius'', JNum 4), (''type'', JStr ''DROP_SHADOW'')]"

definition two_shadows :: node where
  "two_shadows = Node [] None None None None None [shadow_a, shadow_b] []"

section \<open>Revisions and versions\<close>

lemmas sample_defs = alice_def bob_def req_user_def alice_doc_def bob_doc_def draft1_def db0_def
  new_content_def new_analytics_def

lemmas save_defs = addRevision_def push_revision_def save_def store_def validate_def
  valid_channel_def type_enum_def status_enum_def platform_enum_def channel_status_enum_def
  findById_def

lemma findById_id: "findById i cs = Some c \<Longrightarrow> doc_id c = i"
  unfolding findById_def by (induction cs) (auto split: if_splits)

lemma find_replace:
  "list_ex (\<lambda>x. doc_id x = doc_id d) cs \<Longrightarrow>
   find (\<lambda>x. doc_id x = doc_id d) (map (\<lambda>x. if doc_id x = doc_id d then d else x) cs) = Some d"
  by (induction cs) auto

lemma find_insert:
  "\<not> list_ex (\<lambda>x. doc_id x = doc_id d) cs \<Longrightarrow>
   find (\<lambda>x. doc_id x = doc_id d) (cs @ [d]) = Some d"
  by (induction cs) auto

lemma findById_store: "findById (doc_id d) (store d cs) = Some d"
  unfolding findById_def store_def by (simp add: find_replace find_insert)

lemma save_stored: "save d cs = Inr cs' \<Longrightarrow> findById (doc_id d) cs' = Some d"
  by (auto simp: save_def findById_store split: if_splits)

lemma addRevision_step:
  assumes "addRevision d u b l now cs = Inr (d', cs')"
  shows "version d' = version d + 1"
    and "revisions d' = revisions d @
           [\<lparr>rev_content = content d, modifiedBy = u, modifiedAt = now,
             rev_version = version d, changeLog = l\<rparr>]"
    and "content d' = b"
    and "doc_id d' = doc_id d"
    and "findById (doc_id d) cs' = Some d'"
  using assms
  by (auto simp: addRevision_def push_revision_def save_def Let_def
        findById_store[of "d\<lparr>revisions := x, content := b, version := y\<rparr>" for x y, simplified]
      split: if_splits)

lemma addRevisions_count:
  "addRevisions d es cs = Inr (d', cs') \<Longrightarrow>
   version d' = version d + int (length es) \<and>
   length (revisions d') = length (revisions d) + length es"
proof (induction es arbitrary: d cs)
  case Nil
  then show ?case by simp
next
  case (Cons e es)
  obtain u b l now where e: "e = (u, b, l, now)"
    by (cases e) auto
  from Cons.prems e obtain d1 cs1
    where 1: "addRevision d u b l now cs = Inr (d1, cs1)"
      and 2: "addRevisions d1 es cs1 = Inr (d', cs')"
    by (auto split: sum.splits)
  from addRevision_step(1,2)[OF 1] Cons.IH[OF 2] show ?case
    by simp
qed

text \<open>
  Claim C1. An artifact is created with version 1 and no revision. After a sequence of
  successful calls of \<open>addRevision\<close> its version is 1 plus the number of calls and it
  has as many revisions as there were calls; one successful call adds exactly 1 to the
  version and appends exactly one revision to the ones there were.
\<close>

theorem addRevision_counts_versions:
  "(addRevisions (new_content i ty body a c t0) es cs = Inr (d', cs') \<longrightarrow>
      version d' = 1 + int (length es) \<and> length (revisions d') = length es) \<and>
   (addRevision d u b l now cs0 = Inr (d1, cs1) \<longrightarrow>
      version d1 = version d + 1 \<and> (\<exists>r. revisions d1 = revisions d @ [r]))"
proof (intro conjI impI)
  assume "addRevisions (new_content i ty body a c t0) es cs = Inr (d', cs')"
  from addRevisions_count[OF this]
  show "version d' = 1 + int (length es)" and "length (revisions d') = length es"
    by (simp_all add: new_content_def)
next
  assume 1: "addRevision d u b l now cs0 = Inr (d1, cs1)"
  show "version d1 = version d + 1"
    by (rule addRevision_step(1)[OF 1])
  show "\<exists>r. revisions d1 = revisions d @ [r]"
    using addRevision_step(2)[OF 1] by blast
qed

theorem addRevision_counts_versions_witness:
  "\<exists>d' cs'.
     addRevisions draft1 [(1, ''Second'', ''edit'', 2000), (1, ''Third'', ''edit'', 3000)] [draft1]
       = Inr (d', cs') \<and>
     version d' = 3 \<and> length (revisions d') = 2 \<and>
     (\<exists>d1 cs1. addRevision draft1 1 ''Second'' ''edit'' 2000 [draft1] = Inr (d1, cs1) \<and>
        version d1 = version draft1 + 1 \<and> (\<exists>r. revisions d1 = revisions draft1 @ [r]))"
proof -
  have "\<exists>d' cs'. addRevisions draft1
          [(1, ''Second'', ''edit'', 2000), (1, ''Third'', ''edit'', 3000)] [draft1] = Inr (d', cs')"
    by (simp add: sample_defs save_defs Let_def)
  then obtain d' cs' where 1: "addRevisions draft1
          [(1, ''Second'', ''edit'', 2000), (1, ''Third'', ''edit'', 3000)] [draft1] = Inr (d', cs')"
    by blast
  have "\<exists>d1 cs1. addRevision draft1 1 ''Second'' ''edit'' 2000 [draft1] = Inr (d1, cs1)"
    by (simp add: sample_defs save_defs Let_def)
  then obtain d1 cs1 where 2: "addRevision draft1 1 ''Second'' ''edit'' 2000 [draft1] = Inr (d1, cs1)"
    by blast
  note t = addRevision_counts_versions[of 1 "''blog''" "''Hello''" 1 10 1000
      "[(1, ''Second'', ''edit'', 2000), (1, ''Third'', ''edit'', 3000)]" "[draft1]" d' cs'
      draft1 1 "''Second''" "''edit''" 2000 "[draft1]" d1 cs1, folded draft1_def]
  from t 1
  have "version d' = 1 + int (length [(1::nat, ''Second'', ''edit'', 2000::int), (1, ''Third'', ''edit'', 3000)]) \<and>
        length (revisions d') = length [(1::nat, ''Second'', ''edit'', 2000::int), (1, ''Third'', ''edit'', 3000)]"
    by blast
  then have "version d' = 3 \<and> length (revisions d') = 2"
    by simp
  moreover from t 2
  have "version d1 = version draft1 + 1 \<and> (\<exists>r. revisions d1 = revisions draft1 @ [r])"
    by blast
  ultimately show ?thesis
    using 1 2 by blast
qed

lemma addRevision_appended:
  "addRevision d u b l now cs = Inr (d', cs') \<Longrightarrow> appended d d'"
  unfolding appended_def by (simp add: addRevision_step)

lemma improve_appends:
  assumes f: "findById i (contents s) = Some c"
    and h: "improveContent u i fb ai now s = (s', res)"
  shows "(isl res \<and> s' = s) \<or> (\<exists>c'. findById i (contents s') = Some c' \<and> appended c c')"
proof (cases "author c \<noteq> user_id u \<or> ai = None")
  case True
  with f h show ?thesis
    by (auto simp: improveContent_def split: if_splits)
next
  case False
  then obtain b where b: "ai = Some b" and a: "author c = user_id u"
    by auto
  show ?thesis
  proof (cases "addRevision c (user_id u) b (''Improved based on feedback: '' @ fb) now (contents s)")
    case (Inl e)
    with f h a b show ?thesis
      by (auto simp: improveContent_def)
  next
    case (Inr p)
    obtain c' cs' where p: "p = (c', cs')"
      by (cases p)
    from f h a b Inr p have s': "contents s' = cs'"
      by (auto simp: improveContent_def)
    from addRevision_step(5)[OF Inr[unfolded p]] findById_id[OF f] s'
    have "findById i (contents s') = Some c'"
      by simp
    with addRevision_appended[OF Inr[unfolded p]] show ?thesis
      by blast
  qed
qed

lemma second_save:
  assumes 1: "addRevision c u b l now cs = Inr (c1, cs1)"
    and r: "revisions c2 = revisions c1" "version c2 = version c1" "doc_id c2 = doc_id c1"
  shows "\<exists>c'. findById (doc_id c) (case save c2 cs1 of Inl e \<Rightarrow> cs1 | Inr cs2 \<Rightarrow> cs2) = Some c' \<and>
           appended c c'"
proof (cases "save c2 cs1")
  case (Inl e)
  with addRevision_step(5)[OF 1] addRevision_appended[OF 1] show ?thesis
    by simp
next
  case (Inr cs2)
  from save_stored[OF Inr] r addRevision_step(4)[OF 1]
  have "findById (doc_id c) cs2 = Some c2"
    by simp
  moreover from addRevision_appended[OF 1] r have "appended c c2"
    by (simp add: appended_def)
  ultimately show ?thesis
    using Inr by simp
qed

lemma update_appends:
  assumes f: "findById i (contents s) = Some c"
    and h: "updateContent u i body st now s = (s', res)"
  shows "(isl res \<and> s' = s) \<or> (\<exists>c'. findById i (contents s') = Some c' \<and> appended c c')"
proof (cases "author c \<noteq> user_id u")
  case True
  with f h show ?thesis
    by (auto simp: updateContent_def)
next
  case False
  show ?thesis
  proof (cases "addRevision c (user_id u) (content c) ''Manual update'' now (contents s)")
    case (Inl e)
    with f h False show ?thesis
      by (auto simp: updateContent_def)
  next
    case (Inr p)
    obtain c1 cs1 where p: "p = (c1, cs1)"
      by (cases p)
    define c3 where "c3 =
      (case st of
         None \<Rightarrow> c1\<lparr>content := body\<rparr>
       | Some v \<Rightarrow> if v = [] then c1\<lparr>content := body\<rparr> else c1\<lparr>content := body, status := v\<rparr>)"
    have r: "revisions c3 = revisions c1" "version c3 = version c1" "doc_id c3 = doc_id c1"
      by (auto simp: c3_def split: option.splits)
    from f h False Inr p
    have "contents s' = (case save c3 cs1 of Inl e \<Rightarrow> cs1 | Inr cs2 \<Rightarrow> cs2)"
      by (auto simp: updateContent_def Let_def c3_def split: sum.splits option.splits)
    with second_save[OF Inr[unfolded p] r] findById_id[OF f] show ?thesis
      by simp
  qed
qed

lemma restore_appends:
  assumes f: "findById i (contents s) = Some c"
    and h: "restoreContentVersion u i vtext v now s = (s', res)"
  shows "(isl res \<and> s' = s) \<or> (\<exists>c'. findById i (contents s') = Some c' \<and> appended c c')"
proof (cases "find (\<lambda>r. rev_version r = v) (revisions c)")
  case None
  with f h show ?thesis
    by (auto simp: restoreContentVersion_def)
next
  case (Some r)
  show ?thesis
  proof (cases "addRevision c (user_id u) (content c) (''Restored to version '' @ vtext) now
                  (contents s)")
    case (Inl e)
    with f h Some show ?thesis
      by (auto simp: restoreContentVersion_def)
  next
    case (Inr p)
    obtain c1 cs1 where p: "p = (c1, cs1)"
      by (cases p)
    define c2 where "c2 = c1\<lparr>content := rev_content r\<rparr>"
    have r: "revisions c2 = revisions c1" "version c2 = version c1" "doc_id c2 = doc_id c1"
      by (auto simp: c2_def)
    from f h Some Inr p
    have "contents s' = (case save c2 cs1 of Inl e \<Rightarrow> cs1 | Inr cs2 \<Rightarrow> cs2)"
      by (auto simp: restoreContentVersion_def Let_def c2_def split: sum.splits)
    with second_save[OF Inr[unfolded p] r] findById_id[OF f] show ?thesis
      by simp
  qed
qed

lemma validate_push:
  "validate c \<Longrightarrow> b \<noteq> [] \<Longrightarrow> validate (push_revision c u b l now)"
  by (simp add: validate_def push_revision_def)

lemma addRevision_succeeds:
  "validate c \<Longrightarrow> b \<noteq> [] \<Longrightarrow>
   addRevision c u b l now cs =
     Inr (push_revision c u b l now, store (push_revision c u b l now) cs)"
  by (simp add: addRevision_def save_def validate_push Let_def)

lemma push_revision_appended:
  "revisions c' = revisions (push_revision c u b l now) \<Longrightarrow>
   version c' = version (push_revision c u b l now) \<Longrightarrow> appended c c'"
  by (simp add: appended_def push_revision_def)

lemma push_revision_id: "doc_id (push_revision c u b l now) = doc_id c"
  by (simp add: push_revision_def)

text \<open>The three edits succeed on a valid artifact: the improvement by the author with
  a text that is not empty, the update by the author with a body that is not empty and
  a status of the enumeration (or none), the restore (by any account) of a stored
  version whose body is not empty. Each leaves the artifact that it answers with.\<close>

lemma improve_succeeds:
  assumes f: "findById i (contents s) = Some c"
    and v: "validate c" and a: "author c = user_id u" and t: "improved \<noteq> []"
  shows "\<exists>s1 c1. improveContent u i fb (Some improved) now s =
            (s1, Inr (ContentResponse ''Content improved successfully'' c1)) \<and>
          findById i (contents s1) = Some c1 \<and> appended c c1 \<and> content c1 = improved \<and>
          status c1 = status c \<and> isArchived c1 = isArchived c"
proof -
  define c1 where "c1 = push_revision c (user_id u) improved (''Improved based on feedback: '' @ fb) now"
  have id: "doc_id c1 = i"
    using findById_id[OF f] by (simp add: c1_def push_revision_id)
  have 1: "improveContent u i fb (Some improved) now s =
      (s\<lparr>contents := store c1 (contents s)\<rparr>, Inr (ContentResponse ''Content improved successfully'' c1))"
    using f a addRevision_succeeds[OF v t, of "user_id u" "''Improved based on feedback: '' @ fb" now "contents s"]
    by (simp add: improveContent_def c1_def)
  have 2: "findById i (contents (s\<lparr>contents := store c1 (contents s)\<rparr>)) = Some c1"
    using findById_store[of c1 "contents s"] id by simp
  have 3: "appended c c1"
    by (rule push_revision_appended) (simp_all add: c1_def)
  have 4: "content c1 = improved \<and> status c1 = status c \<and> isArchived c1 = isArchived c"
    by (simp add: c1_def push_revision_def)
  from 1 2 3 4 show ?thesis
    by blast
qed

lemma update_succeeds:
  assumes f: "findById i (contents s) = Some c"
    and v: "validate c" and a: "author c = user_id u" and t: "body \<noteq> []"
    and st: "case st of None \<Rightarrow> True | Some w \<Rightarrow> w = [] \<or> w \<in> set status_enum"
  shows "\<exists>s1 c1. updateContent u i body st now s =
            (s1, Inr (ContentResponse ''Content updated successfully'' c1)) \<and>
          findById i (contents s1) = Some c1 \<and> appended c c1 \<and> content c1 = body \<and>
          status c1 = (case st of None \<Rightarrow> status c | Some w \<Rightarrow> if w = [] then status c else w) \<and>
          isArchived c1 = isArchived c"
proof -
  define c1 where "c1 = push_revision c (user_id u) (content c) ''Manual update'' now"
  define c3 where "c3 =
    (case st of
       None \<Rightarrow> c1\<lparr>content := body\<rparr>
     | Some w \<Rightarrow> if w = [] then c1\<lparr>content := body\<rparr> else c1\<lparr>content := body, status := w\<rparr>)"
  from v have nonempty: "content c \<noteq> []"
    by (simp add: validate_def)
  have ar: "addRevision c (user_id u) (content c) ''Manual update'' now (contents s) =
      Inr (c1, store c1 (contents s))"
    unfolding c1_def by (rule addRevision_succeeds[OF v nonempty])
  have v1: "validate c1"
    unfolding c1_def by (rule validate_push[OF v nonempty])
  have v3: "validate c3"
    using v1 t st by (auto simp: c3_def validate_def split: option.splits)
  have sv: "save c3 (store c1 (contents s)) = Inr (store c3 (store c1 (contents s)))"
    using v3 by (simp add: save_def)
  have id: "doc_id c3 = i"
    using findById_id[OF f] by (auto simp: c3_def c1_def push_revision_id split: option.splits)
  have 1: "updateContent u i body st now s =
      (s\<lparr>contents := store c3 (store c1 (contents s))\<rparr>,
       Inr (ContentResponse ''Content updated successfully'' c3))"
    using f a ar sv by (simp add: updateContent_def Let_def c3_def)
  have 2: "findById i (contents (s\<lparr>contents := store c3 (store c1 (contents s))\<rparr>)) = Some c3"
    using findById_store[of c3 "store c1 (contents s)"] id by simp
  have 3: "appended c c3"
    by (rule push_revision_appended[of _ _ "user_id u" "content c" "''Manual update''" now])
       (auto simp: c3_def c1_def split: option.splits)
  have 4: "content c3 = body \<and>
      status c3 = (case st of None \<Rightarrow> status c | Some w \<Rightarrow> if w = [] then status c else w) \<and>
      isArchived c3 = isArchived c"
    by (auto simp: c3_def c1_def push_revision_def split: option.splits)
  from 1 2 3 4 show ?thesis
    by blast
qed

lemma restore_succeeds:
  assumes f: "findById i (contents s) = Some c"
    and v: "validate c" and r: "find (\<lambda>r. rev_version r = n) (revisions c) = Some rv"
    and t: "rev_content rv \<noteq> []"
  shows "\<exists>s1 c1. restoreContentVersion u i vtext n now s =
            (s1, Inr (ContentResponse ''Content version restored successfully'' c1)) \<and>
          findById i (contents s1) = Some c1 \<and> appended c c1 \<and> content c1 = rev_content rv \<and>
          status c1 = status c \<and> isArchived c1 = isArchived c"
proof -
  define c1 where "c1 = push_revision c (user_id u) (content c) (''Restored to version '' @ vtext) now"
  define c2 where "c2 = c1\<lparr>content := rev_content rv\<rparr>"
  from v have nonempty: "content c \<noteq> []"
    by (simp add: validate_def)
  have ar: "addRevision c (user_id u) (content c) (''Restored to version '' @ vtext) now (contents s) =
      Inr (c1, store c1 (contents s))"
    unfolding c1_def by (rule addRevision_succeeds[OF v nonempty])
  have v1: "validate c1"
    unfolding c1_def by (rule validate_push[OF v nonempty])
  have v2: "validate c2"
    using v1 t by (simp add: c2_def validate_def)
  have sv: "save c2 (store c1 (contents s)) = Inr (store c2 (store c1 (contents s)))"
    using v2 by (simp add: save_def)
  have id: "doc_id c2 = i"
    using findById_id[OF f] by (simp add: c2_def c1_def push_revision_id)
  have 1: "restoreContentVersion u i vtext n now s =
      (s\<lparr>contents := store c2 (store c1 (contents s))\<rparr>,
       Inr (ContentResponse ''Content version restored successfully'' c2))"
    using f r ar sv by (simp add: restoreContentVersion_def Let_def c2_def)
  have 2: "findById i (contents (s\<lparr>contents := store c2 (store c1 (contents s))\<rparr>)) = Some c2"
    using findById_store[of c2 "store c1 (contents s)"] id by simp
  have 3: "appended c c2"
    by (rule push_revision_appended[of _ _ "user_id u" "content c" "''Restored to version '' @ vtext" now])
       (simp_all add: c2_def c1_def)
  have 4: "content c2 = rev_content rv \<and> status c2 = status c \<and> isArchived c2 = isArchived c"
    by (simp add: c2_def c1_def push_revision_def)
  from 1 2 3 4 show ?thesis
    by blast
qed

text \<open>
  Claim C2. Take an artifact \<open>c\<close> of the collection, stored under the id \<open>i\<close>.

  \<^item> One request that improves it, updates it or restores one of its versions either
    fails and leaves the collections as they were, or leaves under \<open>i\<close> an artifact with
    exactly one revision more, and that last revision holds the body and the version
    number that \<open>c\<close> had before the request (not the new body); the version is one more.
  \<^item> The improvement succeeds when \<open>c\<close> is valid, the account is its author and the
    improved text is not empty; the update, when \<open>c\<close> is valid, the account is its author,
    the new body is not empty and the status, if the request has one, is of the
    enumeration; the restore, for any account, when \<open>c\<close> is valid and has a revision of
    the requested version with a body that is not empty. Each then answers with the
    stored artifact, whose body is the new one and whose last revision is as above.
\<close>

theorem edit_revision_keeps_previous_body:
  assumes "findById i (contents s) = Some c"
  shows
    "(edits i r \<and> handle u now r s = (s', res) \<longrightarrow>
        (isl res \<and> s' = s) \<or> (\<exists>c'. findById i (contents s') = Some c' \<and> appended c c')) \<and>
     (validate c \<and> author c = user_id u \<and> improved \<noteq> [] \<longrightarrow>
        (\<exists>s1 c1. handle u now (Improve i feedback (Some improved)) s =
             (s1, Inr (ContentResponse ''Content improved successfully'' c1)) \<and>
           findById i (contents s1) = Some c1 \<and> appended c c1 \<and> content c1 = improved)) \<and>
     (validate c \<and> author c = user_id u \<and> body \<noteq> [] \<and>
      (case st of None \<Rightarrow> True | Some w \<Rightarrow> w = [] \<or> w \<in> set status_enum) \<longrightarrow>
        (\<exists>s1 c1. handle u now (UpdateContent i body st) s =
             (s1, Inr (ContentResponse ''Content updated successfully'' c1)) \<and>
           findById i (contents s1) = Some c1 \<and> appended c c1 \<and> content c1 = body)) \<and>
     (validate c \<and> find (\<lambda>r. rev_version r = n) (revisions c) = Some rv \<and> rev_content rv \<noteq> [] \<longrightarrow>
        (\<exists>s1 c1. handle u now (RestoreContentVersion i vtext n) s =
             (s1, Inr (ContentResponse ''Content version restored successfully'' c1)) \<and>
           findById i (contents s1) = Some c1 \<and> appended c c1 \<and> content c1 = rev_content rv))"
proof (intro conjI impI)
  assume "edits i r \<and> handle u now r s = (s', res)"
  then show "(isl res \<and> s' = s) \<or> (\<exists>c'. findById i (contents s') = Some c' \<and> appended c c')"
    using assms by (cases r) (simp_all add: improve_appends update_appends restore_appends)
next
  assume "validate c \<and> author c = user_id u \<and> improved \<noteq> []"
  with improve_succeeds[OF assms, of u improved feedback now]
  show "\<exists>s1 c1. handle u now (Improve i feedback (Some improved)) s =
             (s1, Inr (ContentResponse ''Content improved successfully'' c1)) \<and>
           findById i (contents s1) = Some c1 \<and> appended c c1 \<and> content c1 = improved"
    unfolding handle.simps by blast
next
  assume "validate c \<and> author c = user_id u \<and> body \<noteq> [] \<and>
      (case st of None \<Rightarrow> True | Some w \<Rightarrow> w = [] \<or> w \<in> set status_enum)"
  with update_succeeds[OF assms, of u body st now]
  show "\<exists>s1 c1. handle u now (UpdateContent i body st) s =
             (s1, Inr (ContentResponse ''Content updated successfully'' c1)) \<and>
           findById i (contents s1) = Some c1 \<and> appended c c1 \<and> content c1 = body"
    unfolding handle.simps by blast
next
  assume "validate c \<and> find (\<lambda>r. rev_version r = n) (revisions c) = Some rv \<and> rev_content rv \<noteq> []"
  with restore_succeeds[OF assms, of n rv u vtext now]
  show "\<exists>s1 c1. handle u now (RestoreContentVersion i vtext n) s =
             (s1, Inr (ContentResponse ''Content version restored successfully'' c1)) \<and>
           findById i (contents s1) = Some c1 \<and> appended c c1 \<and> content c1 = rev_content rv"
    unfolding handle.simps by blast
qed

text \<open>The three edits at work: the author improves and updates the draft, and the
  account of the other company restores version 1 of the edited artifact.\<close>

theorem edit_revision_keeps_previous_body_witness:
  "findById 1 (contents db0) = Some draft1 \<and> validate draft1 \<and> author draft1 = user_id alice \<and>
   (\<exists>s1 c1. handle alice 2000 (Improve 1 ''shorter'' (Some ''Hi'')) db0 =
        (s1, Inr (ContentResponse ''Content improved successfully'' c1)) \<and>
      findById 1 (contents s1) = Some c1 \<and> appended draft1 c1 \<and> content c1 = ''Hi'') \<and>
   (\<exists>s1 c1. handle alice 2000 (UpdateContent 1 ''New body'' (Some ''published'')) db0 =
        (s1, Inr (ContentResponse ''Content updated successfully'' c1)) \<and>
      findById 1 (contents s1) = Some c1 \<and> appended draft1 c1 \<and> content c1 = ''New body'') \<and>
   findById 1 (contents db1) = Some edited1 \<and> validate edited1 \<and>
   find (\<lambda>r. rev_version r = 1) (revisions edited1) = Some revision1 \<and>
   (\<exists>s1 c1. handle bob 3000 (RestoreContentVersion 1 ''1'' 1) db1 =
        (s1, Inr (ContentResponse ''Content version restored successfully'' c1)) \<and>
      findById 1 (contents s1) = Some c1 \<and> appended edited1 c1 \<and>
      content c1 = rev_content revision1) \<and>
   (\<exists>s' e. handle bob 2000 (UpdateContent 1 ''Mine now'' None) db0 = (s', Inl e) \<and> s' = db0)"
proof -
  have f0: "findById 1 (contents db0) = Some draft1"
    by (simp add: sample_defs findById_def)
  have v0: "validate draft1"
    by (simp add: sample_defs validate_def type_enum_def status_enum_def)
  have a0: "author draft1 = user_id alice"
    by (simp add: sample_defs)
  have f1: "findById 1 (contents db1) = Some edited1"
    by (simp add: db1_def edited1_def sample_defs findById_def)
  have v1: "validate edited1"
    by (simp add: edited1_def sample_defs validate_def type_enum_def status_enum_def)
  have r1: "find (\<lambda>r. rev_version r = 1) (revisions edited1) = Some revision1"
    by (simp add: edited1_def revision1_def)
  have t1: "rev_content revision1 \<noteq> []"
    by (simp add: revision1_def)
  have st: "case Some ''published'' of None \<Rightarrow> True | Some w \<Rightarrow> w = [] \<or> w \<in> set status_enum"
    by (simp add: status_enum_def)
  have h: "handle bob 2000 (UpdateContent 1 ''Mine now'' None) db0 =
      (db0, Inl (APIError ''Unauthorized'' 403))"
    using f0 by (simp add: updateContent_def sample_defs)
  note t0 = edit_revision_keeps_previous_body[OF f0, where u = alice and now = 2000
      and improved = "''Hi''" and feedback = "''shorter''" and body = "''New body''"
      and st = "Some ''published''"]
  note t2 = edit_revision_keeps_previous_body[OF f1, where u = bob and now = 3000
      and n = 1 and rv = revision1 and vtext = "''1''"]
  note t3 = edit_revision_keeps_previous_body[OF f0, where u = bob and now = 2000
      and r = "UpdateContent 1 ''Mine now'' None" and s' = db0
      and res = "Inl (APIError ''Unauthorized'' 403)"]
  from t0 v0 a0
  have i: "\<exists>s1 c1. handle alice 2000 (Improve 1 ''shorter'' (Some ''Hi'')) db0 =
        (s1, Inr (ContentResponse ''Content improved successfully'' c1)) \<and>
      findById 1 (contents s1) = Some c1 \<and> appended draft1 c1 \<and> content c1 = ''Hi''"
    by simp
  from t0 v0 a0 st
  have u: "\<exists>s1 c1. handle alice 2000 (UpdateContent 1 ''New body'' (Some ''published'')) db0 =
        (s1, Inr (ContentResponse ''Content updated successfully'' c1)) \<and>
      findById 1 (contents s1) = Some c1 \<and> appended draft1 c1 \<and> content c1 = ''New body''"
    by simp
  from t2 v1 r1 t1
  have r: "\<exists>s1 c1. handle bob 3000 (RestoreContentVersion 1 ''1'' 1) db1 =
        (s1, Inr (ContentResponse ''Content version restored successfully'' c1)) \<and>
      findById 1 (contents s1) = Some c1 \<and> appended edited1 c1 \<and>
      content c1 = rev_content revision1"
    by simp
  from t3 h have "\<exists>s' e. handle bob 2000 (UpdateContent 1 ''Mine now'' None) db0 = (s', Inl e) \<and> s' = db0"
    by simp
  with f0 v0 a0 i u f1 v1 r1 r show ?thesis
    by (intro conjI)
qed

section \<open>Raw logs and rollups\<close>

lemmas analytics_defs = addView_def updateAggregates_def updateTimeSeriesData_def
  todayMetrics_def on_day_def toDateString_def startOfDay_def ms_per_day_def

lemma todayMetrics_series [simp]:
  "todayMetrics (a\<lparr>timeSeriesData := ts\<rparr>) now = todayMetrics a now"
  by (simp add: todayMetrics_def)

lemma todayMetrics_daily [simp]:
  "todayMetrics (a\<lparr>daily := d\<rparr>) now = todayMetrics a now"
  by (simp add: todayMetrics_def)

















text \<open>The push of \<open>getContent\<close> itself, which no request reaches, is a bare append: for
  an account whose company id were the company of the artifact, the view would be in
  the log and no aggregate recomputed.\<close>

lemma getContent_push_is_bare:
  "findById i (contents s) = Some c \<Longrightarrow> company_id u = Some (company c) \<Longrightarrow>
   map daily (analytics (fst (getContent u i agent now s))) = map daily (analytics s) \<and>
   map timeSeriesData (analytics (fst (getContent u i agent now s))) =
     map timeSeriesData (analytics s)"
proof -
  have "map daily (push_view j v as) = map daily as \<and>
        map timeSeriesData (push_view j v as) = map timeSeriesData as" for j v as
    by (induction as) auto
  then show "findById i (contents s) = Some c \<Longrightarrow> company_id u = Some (company c) \<Longrightarrow>
   map daily (analytics (fst (getContent u i agent now s))) = map daily (analytics s) \<and>
   map timeSeriesData (analytics (fst (getContent u i agent now s))) =
     map timeSeriesData (analytics s)"
    by (simp add: getContent_def)
qed



section \<open>Access across companies\<close>

text \<open>The handlers that check the author refuse an account that is not the author
  with status 403, and \<open>getContent\<close> refuses an account whose company id is not the
  company of the artifact, with status 403 or, when the account has no company id, with
  a \<open>TypeError\<close>. None of them changes anything.\<close>

lemma checked_routes_refuse:
  assumes "checked i r"
    and "findById i (contents s) = Some c"
    and "author c \<noteq> user_id u"
    and "company_id u \<noteq> Some (company c)"
  shows "handle u now r s = (s, Inl (APIError ''Unauthorized'' 403)) \<or>
         handle u now r s = (s, Inl (OtherError ''TypeError''))"
  using assms
  by (cases r)
     (auto simp: improveContent_def getContent_def updateContent_def deleteContent_def
        publishContent_def scheduleContent_def split: option.splits)

text \<open>
  Claim C4, where it fails. The artifact \<open>edited1\<close> was written by the first account,
  of the company Acme; the second account is of the company Globex, it is not the
  author, and its company id is not the company of the artifact. Its requests for the
  version list, for one version and for the analytics are answered with the data of the
  first account's artifact, and its request to restore version 1 succeeds and
  overwrites the body of the artifact. None of the four handlers compares the account
  with the author or the company, which the handlers of \<open>checked\<close> do.
\<close>

theorem unchecked_routes_cross_company:
  "company_name alice_doc \<noteq> company_name bob_doc \<and> author edited1 = user_id alice \<and>
   Some (company edited1) \<noteq> company_id bob \<and> author edited1 \<noteq> user_id bob \<and>
   handle bob 3000 (GetContentVersions 1) db1 = (db1, Inr (VersionsResponse [revision1])) \<and>
   handle bob 3000 (GetContentVersion 1 1) db1 = (db1, Inr (VersionResponse revision1)) \<and>
   handle bob 3000 (GetContentAnalytics 1 None None) db1 =
     (db1, Inr (AnalyticsResponse [bucket1])) \<and>
   (\<exists>s' c'. handle bob 3000 (RestoreContentVersion 1 ''1'' 1) db1 =
        (s', Inr (ContentResponse ''Content version restored successfully'' c')) \<and>
      findById 1 (contents s') = Some c' \<and> content c' = ''Hello'' \<and> version c' = 3 \<and>
      content edited1 = ''New body'')"
  by (simp add: getContentVersions_def getContentVersion_def getContentAnalytics_def
      getByDateRange_def restoreContentVersion_def sample_defs save_defs edited1_def
      revision1_def db1_def bucket1_def Let_def)

section \<open>Listing\<close>

lemma list_query_visible:
  "list_query u ty st c \<Longrightarrow> isArchived c = False \<and> Some (company c) = company_id u"
  by (simp add: list_query_def)

text \<open>The query of an account without company id matches no artifact.\<close>

lemma list_query_undefined:
  "company_id u = None \<Longrightarrow> filter (list_query u ty st) cs = []"
  by (induction cs) (simp_all add: list_query_def)

lemma set_limit_docs: "set (limit_docs n xs) \<subseteq> set xs"
  by (auto simp: limit_docs_def dest: in_set_takeD)

lemma page_subset:
  "set (limit_docs n (drop k (newest_first (filter P cs)))) \<subseteq> {c \<in> set cs. P c}"
proof -
  have "set (limit_docs n (drop k (newest_first (filter P cs))))
          \<subseteq> set (newest_first (filter P cs))"
    using set_limit_docs[of n "drop k (newest_first (filter P cs))"]
      set_drop_subset[of k "newest_first (filter P cs)"]
    by blast
  then show ?thesis
    by (auto simp: newest_first_def)
qed

lemma filter_unarchived:
  "filter (\<lambda>c. \<not> isArchived c \<and> list_query u ty st c) cs = filter (list_query u ty st) cs"
  by (induction cs) (auto simp: list_query_def)

lemma listContent_cong:
  "filter (list_query u ty st) (contents s1) = filter (list_query u ty st) (contents s2) \<Longrightarrow>
   snd (listContent u ty st page limit s1) = snd (listContent u ty st page limit s2)"
  by (simp add: listContent_def Let_def)

text \<open>
  Claim C10. When the listing answers, every artifact of the page is an artifact of
  the collection that is not archived and whose company is the company id of the
  caller; the total is the number of artifacts of the collection that are not archived,
  have that company and pass the type and status filters; and the answer is the same
  on the collection with its archived artifacts taken out (they are still stored:
  archiving deletes nothing). For a caller whose company id is \<open>undefined\<close>, as it is
  for every account that the middleware attaches, no artifact has that company: the
  page is empty and the total is 0.
\<close>

theorem list_hides_archived:
  assumes "listContent u ty st page limit s = (s', Inr (ListResponse found pg lm tot pages))"
  shows "(\<forall>c \<in> set found.
            c \<in> set (contents s) \<and> isArchived c = False \<and> Some (company c) = company_id u) \<and>
         tot = length (filter (\<lambda>c. isArchived c = False \<and> Some (company c) = company_id u \<and>
                    filter_value ty (ctype c) \<and> filter_value st (status c)) (contents s)) \<and>
         snd (listContent u ty st page limit
                (s\<lparr>contents := filter (\<lambda>c. isArchived c = False) (contents s)\<rparr>))
           = Inr (ListResponse found pg lm tot pages) \<and>
         (company_id u = None \<longrightarrow> found = [] \<and> tot = 0)"
proof -
  let ?limit = "case limit of None \<Rightarrow> 10 | Some l \<Rightarrow> l"
  let ?skip = "((case page of None \<Rightarrow> 1 | Some p \<Rightarrow> p) - 1) * ?limit"
  from assms have nn: "\<not> ?skip < 0"
    by (auto simp: listContent_def Let_def split: if_splits)
  from assms nn
  have found: "found = limit_docs ?limit
        (drop (nat ?skip) (newest_first (filter (list_query u ty st) (contents s))))"
    and tot: "tot = length (filter (list_query u ty st) (contents s))"
    by (auto simp: listContent_def Let_def)
  have 1: "\<forall>c \<in> set found.
             c \<in> set (contents s) \<and> isArchived c = False \<and> Some (company c) = company_id u"
    using page_subset[of _ _ "list_query u ty st" "contents s"] list_query_visible
    unfolding found by blast
  have q: "list_query u ty st =
             (\<lambda>c. isArchived c = False \<and> Some (company c) = company_id u \<and>
                   filter_value ty (ctype c) \<and> filter_value st (status c))"
    by (auto simp: list_query_def fun_eq_iff)
  have 2: "tot = length (filter (\<lambda>c. isArchived c = False \<and> Some (company c) = company_id u \<and>
                    filter_value ty (ctype c) \<and> filter_value st (status c)) (contents s))"
    unfolding tot q ..
  have 3: "snd (listContent u ty st page limit
                (s\<lparr>contents := filter (\<lambda>c. isArchived c = False) (contents s)\<rparr>))
           = Inr (ListResponse found pg lm tot pages)"
    using listContent_cong[of u ty st
        "s\<lparr>contents := filter (\<lambda>c. isArchived c = False) (contents s)\<rparr>" s page limit] assms
    by (simp add: filter_unarchived)
  have 4: "company_id u = None \<longrightarrow> found = [] \<and> tot = 0"
    unfolding found tot
    by (simp add: list_query_undefined newest_first_def limit_docs_def)
  from 1 2 3 4 show ?thesis
    by blast
qed

text \<open>The first account lists the collection that holds its draft, an archived
  artifact of its own and an artifact of the other account.\<close>

theorem list_hides_archived_witness:
  "listContent alice None None None None db2 = (db2, Inr (ListResponse [] 1 10 0 (Some 0))) \<and>
   company_id alice = None \<and>
   contents db2 = [draft1, archived2, foreign3] \<and> isArchived archived2 \<and>
   author draft1 = user_id alice \<and> isArchived draft1 = False \<and>
   (0::nat) = length (filter (\<lambda>c. isArchived c = False \<and> Some (company c) = company_id alice \<and>
                 filter_value None (ctype c) \<and> filter_value None (status c)) (contents db2)) \<and>
   snd (listContent alice None None None None
          (db2\<lparr>contents := filter (\<lambda>c. isArchived c = False) (contents db2)\<rparr>))
     = Inr (ListResponse [] 1 10 0 (Some 0))"
proof -
  have e: "listContent alice None None None None db2 =
             (db2, Inr (ListResponse [] 1 10 0 (Some 0)))"
    by (simp add: listContent_def db2_def archived2_def foreign3_def sample_defs list_query_def
        filter_value_def newest_first_def limit_docs_def Let_def)
  have d: "company_id alice = None \<and> contents db2 = [draft1, archived2, foreign3] \<and>
      isArchived archived2 \<and> author draft1 = user_id alice \<and> isArchived draft1 = False"
    by (simp add: db2_def archived2_def sample_defs)
  from list_hides_archived[OF e] e d show ?thesis
    by blast
qed

section \<open>Percentage change\<close>

text \<open>
  Claim C7. The percentage change of a metric from an old to a new value is 0 when
  both are 0, 100 when the old value is 0 and the new one is not, and
  \<open>((new - old) / old) * 100\<close> in every other case.
\<close>

theorem percentage_change_cases:
  "(oldValue = 0 \<and> newValue = 0 \<longrightarrow> calculatePercentageChange oldValue newValue = 0) \<and>
   (oldValue = 0 \<and> newValue \<noteq> 0 \<longrightarrow> calculatePercentageChange oldValue newValue = 100) \<and>
   (oldValue \<noteq> 0 \<longrightarrow>
      calculatePercentageChange oldValue newValue = ((newValue - oldValue) / oldValue) * 100)"
  by (simp add: calculatePercentageChange_def)

theorem percentage_change_cases_witness:
  "calculatePercentageChange 0 0 = 0 \<and> calculatePercentageChange 0 7 = 100 \<and>
   calculatePercentageChange 50 75 = 50 \<and> calculatePercentageChange 80 60 = - 25"
  using percentage_change_cases[of 0 0] percentage_change_cases[of 0 7]
    percentage_change_cases[of 50 75] percentage_change_cases[of 80 60]
  by simp

section \<open>Serialisation of accounts\<close>

lemma strip_idem: "strip_sensitive (strip_sensitive obj) = strip_sensitive obj"
  by (induction obj) (auto simp: strip_sensitive_def delete_key_def)

lemma strip_pow: "(strip_sensitive ^^ n) (strip_sensitive obj) = strip_sensitive obj"
  by (induction n) (simp_all add: strip_idem)

lemma toJSON_keys:
  "list_all (\<lambda>k. k \<notin> set (keys_of (JObj (toJSON u)))) sensitive_keys"
  by (cases "company_position u"; cases "lastLogin u"; cases "figmaIntegration u";
      cases "apiKey u";
      simp add: toJSON_def strip_sensitive_def delete_key_def toObject_def entry_def
        sensitive_keys_def)

text \<open>
  Claim C9. The object that \<open>toJSON\<close> gives for an account has, at no depth, a key
  \<open>password\<close>, \<open>apiKey\<close>, \<open>figmaIntegration\<close>, \<open>accessToken\<close> or \<open>refreshToken\<close>; and
  neither has the object after it has gone through the deletions of \<open>toJSON\<close> again,
  any number \<open>n\<close> of times (an object read back from the serialised form has only
  the keys that were written).
\<close>

theorem toJSON_hides_secrets:
  "list_all (\<lambda>k. k \<notin> set (keys_of (JObj ((strip_sensitive ^^ n) (toJSON u))))) sensitive_keys"
  using toJSON_keys[of u] by (simp add: toJSON_def strip_pow)

theorem toJSON_hides_secrets_witness:
  "list_all (\<lambda>k. k \<notin> set (keys_of (JObj ((strip_sensitive ^^ 2) (toJSON carol)))))
     [''password'', ''apiKey'', ''figmaIntegration'', ''accessToken'', ''refreshToken''] \<and>
   list_all (\<lambda>k. k \<in> set (keys_of (JObj (toObject carol))))
     [''password'', ''apiKey'', ''figmaIntegration'', ''accessToken'', ''refreshToken'']"
  using toJSON_hides_secrets[of 2 carol]
  by (simp add: sensitive_keys_def toObject_def carol_def entry_def figma_object_def)

section \<open>Prompt templates\<close>

lemma word_char_no_brace: "word_char c \<Longrightarrow> c \<noteq> CHR ''{'' \<and> c \<noteq> CHR ''}''"
  unfolding word_char_def by (rule conjI; rule notI; simp)

lemma word_brace_free: "list_all word_char k \<Longrightarrow> brace_free k"
  unfolding brace_free_def list_all_iff using word_char_no_brace by blast

lemma substitute_copy:
  "CHR ''{'' \<notin> set xs \<Longrightarrow> substitute k v (xs @ t) = xs @ substitute k v t"
  by (induction xs) (auto simp: placeholder_def)

lemma closing_brace_unique:
  "prefix (p @ ''}'') (k @ CHR ''}'' # rest) \<Longrightarrow> CHR ''}'' \<notin> set p \<Longrightarrow> CHR ''}'' \<notin> set k \<Longrightarrow> p = k"
proof (induction p arbitrary: k)
  case Nil
  then show ?case by (cases k) auto
next
  case (Cons y p)
  then show ?case by (cases k) auto
qed

lemma sublist_skip:
  "CHR ''{'' \<notin> set xs \<Longrightarrow> sublist (CHR ''{'' # w) (xs @ t) \<Longrightarrow> sublist (CHR ''{'' # w) t"
  by (induction xs) (auto simp: sublist_Cons_right)

lemma sublist_after_match:
  assumes "brace_free p" "brace_free k" "p \<noteq> k"
    and "sublist (placeholder p) (placeholder k @ rest)"
  shows "sublist (placeholder p) rest"
proof -
  from assms(4) have "sublist (placeholder p) (CHR ''{'' # (k @ ''}'') @ rest)"
    by (simp add: placeholder_def)
  then have "prefix (placeholder p) (CHR ''{'' # (k @ ''}'') @ rest) \<or>
      sublist (placeholder p) ((k @ ''}'') @ rest)"
    by (simp only: sublist_Cons_right)
  then show ?thesis
  proof
    assume "prefix (placeholder p) (CHR ''{'' # (k @ ''}'') @ rest)"
    then have "prefix (p @ ''}'') (k @ CHR ''}'' # rest)"
      by (simp add: placeholder_def)
    from closing_brace_unique[OF this] assms(1,2) have "p = k"
      by (simp add: brace_free_def)
    with assms(3) show ?thesis
      by simp
  next
    assume "sublist (placeholder p) ((k @ ''}'') @ rest)"
    then have s: "sublist (CHR ''{'' # p @ ''}'') ((k @ ''}'') @ rest)"
      by (simp only: placeholder_def)
    from assms(2) have "CHR ''{'' \<notin> set (k @ ''}'')"
      by (simp add: brace_free_def)
    from sublist_skip[OF this s] show ?thesis
      by (simp only: placeholder_def)
  qed
qed

lemma sublist_append_left:
  "sublist q xs \<Longrightarrow> sublist q (v @ xs)"
proof -
  assume "sublist q xs"
  then obtain ps ss where "xs = ps @ q @ ss"
    by (auto simp: sublist_def)
  then have "v @ xs = (v @ ps) @ q @ ss"
    by simp
  then show ?thesis
    unfolding sublist_def by blast
qed

lemma substitute_keeps:
  "brace_free p \<Longrightarrow> brace_free k \<Longrightarrow> p \<noteq> k \<Longrightarrow> sublist (placeholder p) s \<Longrightarrow>
   sublist (placeholder p) (substitute k v s)"
proof (induction k v s rule: substitute.induct)
  case (1 key v)
  then show ?case
    by (simp add: placeholder_def)
next
  case (2 key v c cs)
  show ?case
  proof (cases "prefix (placeholder key) (c # cs)")
    case True
    then obtain rest where rest: "c # cs = placeholder key @ rest"
      by (auto simp: prefix_def)
    then have d: "drop (Suc (length key)) cs = rest"
      by (simp add: placeholder_def)
    from "2.prems"(4) rest have "sublist (placeholder p) (placeholder key @ rest)"
      by simp
    from sublist_after_match[OF "2.prems"(1,2,3) this]
    have "sublist (placeholder p) (drop (Suc (length key)) cs)"
      by (simp only: d)
    from "2.IH"(1)[OF True "2.prems"(1,2,3) this]
    have "sublist (placeholder p) (v @ substitute key v (drop (Suc (length key)) cs))"
      by (rule sublist_append_left)
    moreover from True
    have "substitute key v (c # cs) = v @ substitute key v (drop (Suc (length key)) cs)"
      by simp
    ultimately show ?thesis
      by simp
  next
    case False
    then have e: "substitute key v (c # cs) = c # substitute key v cs"
      by simp
    from "2.prems"(4) have "prefix (placeholder p) (c # cs) \<or> sublist (placeholder p) cs"
      by (simp only: sublist_Cons_right)
    then show ?thesis
    proof
      assume "sublist (placeholder p) cs"
      from "2.IH"(2)[OF False "2.prems"(1,2,3) this]
      have "sublist (placeholder p) ([c] @ substitute key v cs)"
        by (rule sublist_append_left)
      with e show ?thesis
        by simp
    next
      assume "prefix (placeholder p) (c # cs)"
      then obtain t where t: "c = CHR ''{''" "cs = (p @ ''}'') @ t"
        by (auto simp: prefix_def placeholder_def)
      from "2.prems"(1) have "CHR ''{'' \<notin> set (p @ ''}'')"
        by (simp add: brace_free_def)
      from substitute_copy[OF this, of key v t] t(2)
      have "substitute key v cs = (p @ ''}'') @ substitute key v t"
        by simp
      with e t(1) have "substitute key v (c # cs) = placeholder p @ substitute key v t"
        by (simp add: placeholder_def)
      then show ?thesis
        by simp
    qed
  qed
qed

lemma fold_keeps:
  "list_all (\<lambda>(k, v). brace_free k \<and> k \<noteq> p) params \<Longrightarrow> brace_free p \<Longrightarrow>
   sublist (placeholder p) t \<Longrightarrow>
   sublist (placeholder p) (fold (\<lambda>(key, v) t. substitute key (param_text v) t) params t)"
proof (induction params arbitrary: t)
  case Nil
  then show ?case
    by simp
next
  case (Cons kv params)
  obtain k v where kv: "kv = (k, v)"
    by (cases kv)
  from Cons.prems(1) kv have k: "brace_free k" "p \<noteq> k" and rest: "list_all (\<lambda>(k, v). brace_free k \<and> k \<noteq> p) params"
    by auto
  from substitute_keeps[OF Cons.prems(2) k Cons.prems(3)]
  have "sublist (placeholder p) (substitute k (param_text v) t)" .
  from Cons.IH[OF rest Cons.prems(2) this] kv show ?case
    by simp
qed

lemma generateContent_no_validation_error:
  "generateContent openai ty params t0 t1 \<noteq> Inl (ValidationError msg)"
  by (simp add: generateContent_def Let_def split: sum.splits completion.splits)

text \<open>
  Claim C6, as the code has it. Take a type with a template, a placeholder \<open>{p}\<close> of
  the template (\<open>p\<close> a word) and parameters that have no entry for \<open>p\<close> (their keys
  plain words, their values without a dollar sign). Then \<open>formatPrompt\<close> raises
  nothing and returns a prompt that still contains \<open>{p}\<close>; \<open>generateContent\<close> never
  fails with a validation error, and when the completion API answers it succeeds and
  reports that prompt as the prompt it used.
\<close>

theorem missing_placeholder_stays:
  assumes "map_of promptTemplates ty = Some template"
    and "sublist (placeholder p) template"
    and "list_all word_char p"
    and "p \<notin> fst ` set params"
    and "list_all (\<lambda>(k, v). plain_key k \<and> plain_value v) params"
  shows "\<exists>prompt. formatPrompt ty params = Inr (Some prompt) \<and> sublist (placeholder p) prompt \<and>
      generateContent openai ty params t0 t1 \<noteq> Inl (ValidationError msg) \<and>
      (openai (Some prompt) (spread defaultParams (generationParams_of params)) = Completion text n \<longrightarrow>
         (\<exists>g. generateContent openai ty params t0 t1 = Inr g \<and> gen_prompt g = Some prompt))"
proof -
  define prompt where "prompt = fold (\<lambda>(key, v) t. substitute key (param_text v) t) params template"
  have f: "formatPrompt ty params = Inr (Some prompt)"
    using assms(1) by (simp add: formatPrompt_def prompt_def)
  have "list_all (\<lambda>(k, v). brace_free k \<and> k \<noteq> p) params"
    unfolding list_all_iff
  proof
    fix x
    assume x: "x \<in> set params"
    obtain k v where kv: "x = (k, v)"
      by (cases x)
    from assms(5) x kv have "list_all word_char k"
      by (auto simp: list_all_iff plain_key_def)
    then have "brace_free k"
      by (rule word_brace_free)
    moreover from assms(4) x kv have "k \<noteq> p"
      by force
    ultimately show "case x of (k, v) \<Rightarrow> brace_free k \<and> k \<noteq> p"
      by (simp add: kv)
  qed
  from fold_keeps[OF this word_brace_free[OF assms(3)] assms(2)]
  have s: "sublist (placeholder p) prompt"
    by (simp add: prompt_def)
  have g: "openai (Some prompt) (spread defaultParams (generationParams_of params)) = Completion text n \<longrightarrow>
         (\<exists>g. generateContent openai ty params t0 t1 = Inr g \<and> gen_prompt g = Some prompt)"
    by (simp add: generateContent_def f Let_def)
  from f s g generateContent_no_validation_error show ?thesis by blast
qed

text \<open>
  Claim C6 as stated fails: a blog generation whose parameters are the prompt and the
  tone, without a topic, succeeds, and the prompt it sent has the placeholders of the
  topic, the audience and the key points in it.
\<close>

theorem missing_placeholder_not_rejected:
  "generateContent echo_api ''blog'' launch_params 0 1500 =
     Inr \<lparr>gen_content = ''Generated text'',
          gen_prompt = Some (''Write a professional blog post about {topic}. '' @ [newline] @
            ''                  Tone: professional'' @ [newline] @
            ''                  Target audience: {audience}'' @ [newline] @
            ''                  Key points to cover: {points}''),
          aiModel = ''gpt-4'', generationParams = defaultParams, processingTime = 1500, usage = 42\<rparr> \<and>
   map_of launch_params ''topic'' = None"
  by (simp add: generateContent_def formatPrompt_def promptTemplates_def launch_params_def echo_api_def
      placeholder_def spread_def generationParams_of_def defaultParams_def Let_def)


theorem missing_placeholder_stays_witness:
  "map_of promptTemplates ''blog'' = Some (''Write a professional blog post about {topic}. '' @ [newline] @
            ''                  Tone: {tone}'' @ [newline] @
            ''                  Target audience: {audience}'' @ [newline] @
            ''                  Key points to cover: {points}'') \<and>
   sublist (placeholder ''topic'') (''Write a professional blog post about {topic}. '' @ [newline] @
            ''                  Tone: {tone}'' @ [newline] @
            ''                  Target audience: {audience}'' @ [newline] @
            ''                  Key points to cover: {points}'') \<and>
   ''topic'' \<notin> fst ` set launch_params \<and>
   (\<exists>prompt. formatPrompt ''blog'' launch_params = Inr (Some prompt) \<and> sublist (placeholder ''topic'') prompt \<and>
      (\<exists>g. generateContent echo_api ''blog'' launch_params 0 1500 = Inr g \<and> gen_prompt g = Some prompt))"
proof -
  let ?t = "''Write a professional blog post about {topic}. '' @ [newline] @
            ''                  Tone: {tone}'' @ [newline] @
            ''                  Target audience: {audience}'' @ [newline] @
            ''                  Key points to cover: {points}''"
  let ?rest = "''. '' @ [newline] @
            ''                  Tone: {tone}'' @ [newline] @
            ''                  Target audience: {audience}'' @ [newline] @
            ''                  Key points to cover: {points}''"
  have 1: "map_of promptTemplates ''blog'' = Some ?t"
    by (simp add: promptTemplates_def)
  have "?t = ''Write a professional blog post about '' @ placeholder ''topic'' @ ?rest"
    by (simp add: placeholder_def)
  then have 2: "sublist (placeholder ''topic'') ?t"
    by (simp only: sublist_appendI)
  have 3: "list_all word_char ''topic''"
    by (simp add: word_char_def)
  have 4: "''topic'' \<notin> fst ` set launch_params"
    by (simp add: launch_params_def)
  have 5: "list_all (\<lambda>(k, v). plain_key k \<and> plain_value v) launch_params"
    by (simp add: launch_params_def plain_key_def plain_value_def word_char_def digit_char_def)
  from missing_placeholder_stays[OF 1 2 3 4 5, of echo_api 0 1500 "[]" "''Generated text''" 42]
  obtain prompt where p: "formatPrompt ''blog'' launch_params = Inr (Some prompt)"
      "sublist (placeholder ''topic'') prompt"
      "echo_api (Some prompt) (spread defaultParams (generationParams_of launch_params)) =
         Completion ''Generated text'' 42 \<longrightarrow>
       (\<exists>g. generateContent echo_api ''blog'' launch_params 0 1500 = Inr g \<and> gen_prompt g = Some prompt)"
    by blast
  have "echo_api (Some prompt) (spread defaultParams (generationParams_of launch_params)) =
         Completion ''Generated text'' 42"
    by (simp only: echo_api_def)
  with p(3) have "\<exists>g. generateContent echo_api ''blog'' launch_params 0 1500 = Inr g \<and> gen_prompt g = Some prompt"
    by blast
  with p(1,2) have "\<exists>prompt. formatPrompt ''blog'' launch_params = Inr (Some prompt) \<and> sublist (placeholder ''topic'') prompt \<and>
      (\<exists>g. generateContent echo_api ''blog'' launch_params 0 1500 = Inr g \<and> gen_prompt g = Some prompt)"
    by blast
  with 1 2 4 show ?thesis
    by (intro conjI)
qed

section \<open>Status and archive flag\<close>

lemma findById_store_eq:
  "findById i (store d cs) = (if i = doc_id d then Some d else findById i cs)"
proof (cases "i = doc_id d")
  case True
  then show ?thesis by (simp add: findById_store)
next
  case False
  have 1: "find (\<lambda>x. doc_id x = i) (map (\<lambda>x. if doc_id x = doc_id d then d else x) cs) = find (\<lambda>x. doc_id x = i) cs"
    using False by (induction cs) auto
  have 2: "find (\<lambda>x. doc_id x = i) (cs @ [d]) = find (\<lambda>x. doc_id x = i) cs"
    using False by (induction cs) auto
  from False 1 2 show ?thesis
    by (simp add: findById_def store_def)
qed

lemma findById_ex: "findById j cs = Some c0 \<Longrightarrow> list_ex (\<lambda>x. doc_id x = j) cs"
  unfolding findById_def by (induction cs) (auto split: if_splits)

lemma ids_store:
  "findById (doc_id d) cs = Some c0 \<Longrightarrow> map doc_id (store d cs) = map doc_id cs"
  by (frule findById_ex) (simp add: store_def)

lemma addRevision_Inr:
  "addRevision d u b l now cs = Inr (d', cs') \<Longrightarrow>
   d' = push_revision d u b l now \<and> cs' = store d' cs"
  by (auto simp: addRevision_def save_def Let_def split: if_splits)

lemma save_Inr: "save d cs = Inr cs' \<Longrightarrow> cs' = store d cs"
  by (auto simp: save_def split: if_splits)

lemma push_revision_fields [simp]:
  "doc_id (push_revision d u b l now) = doc_id d"
  "status (push_revision d u b l now) = status d"
  "isArchived (push_revision d u b l now) = isArchived d"
  by (simp_all add: push_revision_def)


lemma reshapes_refl: "(\<And>c. R c c) \<Longrightarrow> reshapes j R cs cs"
  by (simp add: reshapes_def)

lemma reshapes_store:
  assumes "findById j cs = Some c0" "doc_id d = j" "R c0 d"
  shows "reshapes j R cs (store d cs)"
  using assms by (auto simp: reshapes_def findById_store_eq ids_store)

lemma reshapes_store2:
  assumes "findById j cs = Some c0" "doc_id d1 = j" "doc_id d2 = j" "R c0 d2"
  shows "reshapes j R cs (store d2 (store d1 cs))"
proof -
  from assms(1,2) have 1: "findById (doc_id d1) cs = Some c0" by simp
  have 2: "findById (doc_id d2) (store d1 cs) = Some d1"
    using assms(2,3) by (simp add: findById_store_eq)
  show ?thesis
    using assms ids_store[OF 1] ids_store[OF 2]
    by (auto simp: reshapes_def findById_store_eq)
qed

lemma improve_reshapes:
  "reshapes i kept (contents s) (contents (fst (improveContent u i fb ai now s)))"
  by (auto simp: improveContent_def kept_def findById_id split: option.splits sum.splits
      intro!: reshapes_refl reshapes_store dest!: addRevision_Inr)

lemma update_reshapes:
  "reshapes i (\<lambda>c c'. (status c' = status c \<or> (author c = user_id u \<and> st = Some (status c'))) \<and>
                       isArchived c' = isArchived c)
     (contents s) (contents (fst (updateContent u i body st now s)))"
  by (auto simp: updateContent_def findById_id Let_def split: option.splits sum.splits
      intro!: reshapes_refl reshapes_store reshapes_store2 dest!: addRevision_Inr save_Inr)

lemma delete_reshapes:
  "reshapes i (\<lambda>c c'. status c' = status c \<and>
                       (isArchived c' = isArchived c \<or> (author c = user_id u \<and> isArchived c')))
     (contents s) (contents (fst (deleteContent u i s)))"
  by (auto simp: deleteContent_def findById_id split: option.splits sum.splits
      intro!: reshapes_refl reshapes_store dest!: save_Inr)

lemma publish_reshapes:
  "reshapes i (\<lambda>c c'. (status c' = status c \<or> (author c = user_id u \<and> status c' = ''published'')) \<and>
                       isArchived c' = isArchived c)
     (contents s) (contents (fst (publishContent u i chs now s)))"
  by (auto simp: publishContent_def findById_id Let_def split: option.splits sum.splits
      intro!: reshapes_refl reshapes_store dest!: save_Inr)

lemma schedule_reshapes:
  "reshapes i kept (contents s) (contents (fst (scheduleContent u i when tz chs s)))"
  by (auto simp: scheduleContent_def kept_def findById_id Let_def split: option.splits sum.splits
      intro!: reshapes_refl reshapes_store dest!: save_Inr)

lemma restore_reshapes:
  "reshapes i kept (contents s) (contents (fst (restoreContentVersion u i vtext v now s)))"
  by (auto simp: restoreContentVersion_def kept_def findById_id Let_def split: option.splits sum.splits
      intro!: reshapes_refl reshapes_store reshapes_store2 dest!: addRevision_Inr save_Inr)

lemma readers_keep:
  "contents (fst (getContent u i agent now s)) = contents s"
  "contents (fst (getContentAnalytics u i sd ed now s)) = contents s"
  "contents (fst (getContentVersions u i s)) = contents s"
  "contents (fst (getContentVersion u i v s)) = contents s"
  "contents (fst (listContent u ty st page limit s)) = contents s"
  by (auto simp: getContent_def getContentAnalytics_def getContentVersions_def getContentVersion_def
      listContent_def Let_def split: option.splits)

lemma reshapes_evolves:
  assumes "reshapes j R cs cs'" and "\<And>c c'. R c c' \<Longrightarrow> M j c c'" and "\<And>i c. M i c c"
  shows "evolves M cs cs'"
  unfolding evolves_def
proof (intro conjI allI impI)
  from assms(1) show "map doc_id cs' = map doc_id cs"
    by (simp add: reshapes_def)
next
  fix i c
  assume "findById i cs = Some c"
  with assms(1) obtain c' where c': "findById i cs' = Some c'" "if i = j then R c c' else c' = c"
    unfolding reshapes_def by blast
  with assms(2,3) have "M i c c'"
    by (cases "i = j") auto
  with c'(1) show "\<exists>c'. findById i cs' = Some c' \<and> M i c c'"
    by blast
qed

lemma evolves_refl: "(\<And>i c. M i c c) \<Longrightarrow> evolves M cs cs"
  by (simp add: evolves_def)

lemma findById_map:
  "(\<And>x. doc_id (h x) = doc_id x) \<Longrightarrow> findById i (map h cs) = map_option h (findById i cs)"
  unfolding findById_def by (induction cs) auto

lemma bulkArchive_evolves:
  "evolves (\<lambda>i c c'. status c' = status c \<and>
                      (isArchived c' = isArchived c \<or> (isArchived c' \<and> in_bulk u ids c)))
     (contents s) (contents (fst (bulkArchiveContent u ids s)))"
proof -
  define h :: "content_doc \<Rightarrow> content_doc"
    where "h = (\<lambda>c. if in_bulk u ids c then c\<lparr>isArchived := True\<rparr> else c)"
  have hid: "\<And>x. doc_id (h x) = doc_id x"
    by (simp add: h_def)
  have c: "contents (fst (bulkArchiveContent u ids s)) = map h (contents s)"
    by (simp add: bulkArchiveContent_def h_def)
  have f: "\<And>i. findById i (map h (contents s)) = map_option h (findById i (contents s))"
    by (rule findById_map) (rule hid)
  show ?thesis
    unfolding c evolves_def
  proof (intro conjI allI impI)
    show "map doc_id (map h (contents s)) = map doc_id (contents s)"
      by (simp add: hid)
  next
    fix i c
    assume "findById i (contents s) = Some c"
    then have "findById i (map h (contents s)) = Some (h c)"
      by (simp add: f)
    moreover have "status (h c) = status c \<and>
        (isArchived (h c) = isArchived c \<or> (isArchived (h c) \<and> in_bulk u ids c))"
      by (simp add: h_def)
    ultimately
    show "\<exists>c'. findById i (map h (contents s)) = Some c' \<and>
            status c' = status c \<and>
            (isArchived c' = isArchived c \<or> (isArchived c' \<and> in_bulk u ids c))"
      by blast
  qed
qed

lemma evolves_trans:
  assumes "evolves M1 a b" and "evolves M2 b c"
    and "\<And>i x y z. M1 i x y \<Longrightarrow> M2 i y z \<Longrightarrow> M3 i x z"
  shows "evolves M3 a c"
  unfolding evolves_def
proof (intro conjI allI impI)
  from assms(1,2) show "map doc_id c = map doc_id a"
    by (simp add: evolves_def)
next
  fix i x
  assume "findById i a = Some x"
  with assms(1) obtain y where y: "findById i b = Some y" "M1 i x y"
    unfolding evolves_def by blast
  with assms(2) obtain z where z: "findById i c = Some z" "M2 i y z"
    unfolding evolves_def by blast
  from assms(3)[OF y(2) z(2)] z(1) show "\<exists>c'. findById i c = Some c' \<and> M3 i x c'"
    by blast
qed

lemma evolves_mono:
  assumes "evolves M a b" and "\<And>i x y. M i x y \<Longrightarrow> M' i x y"
  shows "evolves M' a b"
  using assms unfolding evolves_def by blast

lemma moved_refl: "moved u r i c c"
  by (simp add: moved_def)

text \<open>What one request does to the artifact under an id.\<close>

lemma handle_evolves:
  "evolves (moved u r) (contents s) (contents (fst (handle u now r s)))"
proof (cases r)
  case (Improve j fb ai)
  show ?thesis
    unfolding Improve handle.simps
    by (rule reshapes_evolves[OF improve_reshapes]) (simp_all add: moved_def kept_def)
next
  case (ListContent ty st page limit)
  then show ?thesis
    by (simp add: readers_keep evolves_refl moved_refl)
next
  case (GetContent j agent)
  then show ?thesis
    by (simp add: readers_keep evolves_refl moved_refl)
next
  case (UpdateContent j body st)
  show ?thesis
    unfolding UpdateContent handle.simps
    by (rule reshapes_evolves[OF update_reshapes]) (auto simp: moved_def)
next
  case (DeleteContent j)
  show ?thesis
    unfolding DeleteContent handle.simps
    by (rule reshapes_evolves[OF delete_reshapes]) (auto simp: moved_def)
next
  case (PublishContent j chs)
  show ?thesis
    unfolding PublishContent handle.simps
    by (rule reshapes_evolves[OF publish_reshapes]) (auto simp: moved_def)
next
  case (ScheduleContent j at_time tz chs)
  show ?thesis
    unfolding ScheduleContent handle.simps
    by (rule reshapes_evolves[OF schedule_reshapes]) (simp_all add: moved_def kept_def)
next
  case (GetContentAnalytics j sd ed)
  then show ?thesis
    by (simp add: readers_keep evolves_refl moved_refl)
next
  case (GetContentVersions j)
  then show ?thesis
    by (simp add: readers_keep evolves_refl moved_refl)
next
  case (GetContentVersion j v)
  then show ?thesis
    by (simp add: readers_keep evolves_refl moved_refl)
next
  case (RestoreContentVersion j vtext v)
  show ?thesis
    unfolding RestoreContentVersion handle.simps
    by (rule reshapes_evolves[OF restore_reshapes]) (simp_all add: moved_def kept_def)
next
  case (BulkPublish ids chs)
  then show ?thesis
    by (simp add: evolves_refl moved_refl)
next
  case (BulkArchive ids)
  show ?thesis
  proof (cases "role u \<in> set [''admin'']")
    case True
    then have "handle u now r s = bulkArchiveContent u ids s"
      by (simp add: BulkArchive checkRole_def)
    with evolves_mono[OF bulkArchive_evolves[where s = s and u = u and ids = ids], of "moved u r"] True
    show ?thesis
      by (auto simp: moved_def BulkArchive)
  next
    case False
    then show ?thesis
      by (simp add: BulkArchive checkRole_def evolves_refl moved_refl)
  qed
qed

lemma run_evolves:
  "evolves (\<lambda>i c c'. isArchived c' \<or> \<not> isArchived c) (contents s) (contents (run rs s))"
proof (induction rs arbitrary: s)
  case Nil
  then show ?case
    by (simp add: evolves_refl)
next
  case (Cons x rs)
  obtain u now r where x: "x = (u, now, r)"
    by (cases x)
  let ?s1 = "fst (handle u now r s)"
  have 1: "evolves (moved u r) (contents s) (contents ?s1)"
    by (rule handle_evolves)
  have 2: "evolves (\<lambda>i c c'. isArchived c' \<or> \<not> isArchived c) (contents ?s1) (contents (run rs ?s1))"
    by (rule Cons.IH)
  have "evolves (\<lambda>i c c'. isArchived c' \<or> \<not> isArchived c) (contents s) (contents (run rs ?s1))"
    by (rule evolves_trans[OF 1 2]) (auto simp: moved_def)
  then show ?case
    by (simp add: x)
qed

text \<open>The publication and the deletion by the author succeed on a valid artifact (the
  publication, for channels of the enumeration), whatever its status and its flag.\<close>

lemma publish_succeeds:
  assumes f: "findById i (contents s) = Some c"
    and v: "validate c" and a: "author c = user_id u" and p: "set chs \<subseteq> set platform_enum"
  shows "\<exists>s1 c1. publishContent u i chs now s =
            (s1, Inr (ContentResponse ''Content published successfully'' c1)) \<and>
          findById i (contents s1) = Some c1 \<and> status c1 = ''published'' \<and>
          isArchived c1 = isArchived c"
proof -
  define c1 where "c1 = c\<lparr>channels := map (\<lambda>ch. \<lparr>platform = ch, ch_status = ''published'',
                                        publishedAt = Some now\<rparr>) chs,
                           status := ''published''\<rparr>"
  have "list_all valid_channel (channels c1)"
    using p by (auto simp: c1_def list_all_iff valid_channel_def channel_status_enum_def)
  with v have v1: "validate c1"
    by (simp add: validate_def c1_def status_enum_def)
  have id: "doc_id c1 = i"
    using findById_id[OF f] by (simp add: c1_def)
  have 1: "publishContent u i chs now s =
      (s\<lparr>contents := store c1 (contents s)\<rparr>, Inr (ContentResponse ''Content published successfully'' c1))"
    using f a v1 by (simp add: publishContent_def Let_def save_def c1_def)
  have 2: "findById i (contents (s\<lparr>contents := store c1 (contents s)\<rparr>)) = Some c1"
    using findById_store[of c1 "contents s"] id by simp
  have 3: "status c1 = ''published'' \<and> isArchived c1 = isArchived c"
    by (simp add: c1_def)
  from 1 2 3 show ?thesis
    by blast
qed

lemma delete_succeeds:
  assumes f: "findById i (contents s) = Some c"
    and v: "validate c" and a: "author c = user_id u"
  shows "\<exists>s1 c1. deleteContent u i s = (s1, Inr (MessageOnly ''Content archived successfully'')) \<and>
          findById i (contents s1) = Some c1 \<and> isArchived c1 \<and> status c1 = status c"
proof -
  define c1 where "c1 = c\<lparr>isArchived := True\<rparr>"
  from v have v1: "validate c1"
    by (simp add: validate_def c1_def)
  have id: "doc_id c1 = i"
    using findById_id[OF f] by (simp add: c1_def)
  have 1: "deleteContent u i s =
      (s\<lparr>contents := store c1 (contents s)\<rparr>, Inr (MessageOnly ''Content archived successfully''))"
    using f a v1 by (simp add: deleteContent_def save_def c1_def)
  have 2: "findById i (contents (s\<lparr>contents := store c1 (contents s)\<rparr>)) = Some c1"
    using findById_store[of c1 "contents s"] id by simp
  have 3: "isArchived c1 \<and> status c1 = status c"
    by (simp add: c1_def)
  from 1 2 3 show ?thesis
    by blast
qed

text \<open>The filter of a bulk operation matches nothing for an account without company
  id: the bulk archive then changes nothing, and so would the bulk publish if a request
  reached it.\<close>

lemma bulkPublish_undefined:
  "company_id u = None \<Longrightarrow>
   bulkPublishContent u ids chs now s = (s, Inl (APIError ''No content found'' 404))"
proof -
  assume n: "company_id u = None"
  have "filter (in_bulk u ids) cs = []" for cs
    using n by (induction cs) (simp_all add: in_bulk_def)
  then show ?thesis
    by (simp add: bulkPublishContent_def)
qed

lemma bulkArchive_undefined:
  "company_id u = None \<Longrightarrow> fst (bulkArchiveContent u ids s) = s"
proof -
  assume n: "company_id u = None"
  have "map (\<lambda>c. if in_bulk u ids c then c\<lparr>isArchived := True\<rparr> else c) cs = cs" for cs
    using n by (induction cs) (simp_all add: in_bulk_def)
  then show ?thesis
    by (simp add: bulkArchiveContent_def)
qed

text \<open>
  Claim C5, as the code has it. Take an artifact \<open>c\<close> stored under the id \<open>i\<close>.

  \<^item> One request leaves an artifact under \<open>i\<close>. Its status is the status of \<open>c\<close>,
    unless the account is the author of \<open>c\<close> and the request publishes \<open>i\<close> (the status
    is then \<open>published\<close>) or updates \<open>i\<close> with a status (the status is then the one the
    request names). Its archive flag is the flag of \<open>c\<close>, unless it is set and either
    the account is the author and the request deletes \<open>i\<close>, or the account is an
    administrator and the request is a bulk archive whose filter matches \<open>c\<close>.
  \<^item> On a valid \<open>c\<close>, the publication by the author with channels of the enumeration
    succeeds and leaves the status \<open>published\<close>; the update by the author with a body
    that is not empty and a status of the enumeration succeeds and leaves that status;
    the deletion by the author succeeds, sets the archive flag and keeps the status.
    None of the three looks at the status or at the flag that \<open>c\<close> has, so an artifact
    with the status \<open>archived\<close> is published or set back to \<open>draft\<close> like any other.
  \<^item> A bulk publish changes nothing: its route is shadowed. A bulk archive changes
    nothing when the company id of the account is \<open>undefined\<close>.
  \<^item> No sequence of requests takes the archive flag from an artifact that has it.
\<close>

theorem status_moves_and_archive_flag:
  assumes "findById i (contents s) = Some c"
  shows
    "(\<exists>c'. findById i (contents (fst (handle u now r s))) = Some c' \<and> moved u r i c c') \<and>
     (validate c \<and> author c = user_id u \<and> set chs \<subseteq> set platform_enum \<longrightarrow>
        (\<exists>s1 c1. handle u now (PublishContent i chs) s =
             (s1, Inr (ContentResponse ''Content published successfully'' c1)) \<and>
           findById i (contents s1) = Some c1 \<and> status c1 = ''published'' \<and>
           isArchived c1 = isArchived c)) \<and>
     (validate c \<and> author c = user_id u \<and> body \<noteq> [] \<and> v \<in> set status_enum \<longrightarrow>
        (\<exists>s1 c1. handle u now (UpdateContent i body (Some v)) s =
             (s1, Inr (ContentResponse ''Content updated successfully'' c1)) \<and>
           findById i (contents s1) = Some c1 \<and> status c1 = v \<and>
           isArchived c1 = isArchived c)) \<and>
     (validate c \<and> author c = user_id u \<longrightarrow>
        (\<exists>s1 c1. handle u now (DeleteContent i) s =
             (s1, Inr (MessageOnly ''Content archived successfully'')) \<and>
           findById i (contents s1) = Some c1 \<and> isArchived c1 \<and> status c1 = status c)) \<and>
     fst (handle u now (BulkPublish ids chs) s) = s \<and>
     (company_id u = None \<longrightarrow> fst (handle u now (BulkArchive ids) s) = s) \<and>
     (\<exists>c''. findById i (contents (run rs s)) = Some c'' \<and> (isArchived c \<longrightarrow> isArchived c''))"
proof (intro conjI impI)
  from handle_evolves[of u r s now] assms
  show "\<exists>c'. findById i (contents (fst (handle u now r s))) = Some c' \<and> moved u r i c c'"
    unfolding evolves_def by blast
next
  assume "validate c \<and> author c = user_id u \<and> set chs \<subseteq> set platform_enum"
  with publish_succeeds[OF assms, of u chs now]
  show "\<exists>s1 c1. handle u now (PublishContent i chs) s =
             (s1, Inr (ContentResponse ''Content published successfully'' c1)) \<and>
           findById i (contents s1) = Some c1 \<and> status c1 = ''published'' \<and>
           isArchived c1 = isArchived c"
    unfolding handle.simps by blast
next
  assume h: "validate c \<and> author c = user_id u \<and> body \<noteq> [] \<and> v \<in> set status_enum"
  then have "v \<noteq> []"
    by (auto simp: status_enum_def)
  with h update_succeeds[OF assms, of u body "Some v" now]
  show "\<exists>s1 c1. handle u now (UpdateContent i body (Some v)) s =
             (s1, Inr (ContentResponse ''Content updated successfully'' c1)) \<and>
           findById i (contents s1) = Some c1 \<and> status c1 = v \<and>
           isArchived c1 = isArchived c"
    unfolding handle.simps by auto
next
  assume "validate c \<and> author c = user_id u"
  with delete_succeeds[OF assms, of u]
  show "\<exists>s1 c1. handle u now (DeleteContent i) s =
             (s1, Inr (MessageOnly ''Content archived successfully'')) \<and>
           findById i (contents s1) = Some c1 \<and> isArchived c1 \<and> status c1 = status c"
    unfolding handle.simps by blast
next
  show "fst (handle u now (BulkPublish ids chs) s) = s"
    by simp
next
  assume "company_id u = None"
  then show "fst (handle u now (BulkArchive ids) s) = s"
    by (simp add: checkRole_def bulkArchive_undefined)
next
  from run_evolves[of s rs] assms
  show "\<exists>c''. findById i (contents (run rs s)) = Some c'' \<and> (isArchived c \<longrightarrow> isArchived c'')"
    unfolding evolves_def by blast
qed

text \<open>
  Claim C5 as stated fails. The author updates a draft with status \<open>archived\<close> and
  then publishes it: the status goes from \<open>archived\<close> to \<open>published\<close>. An update of a
  published artifact with status \<open>draft\<close> moves it back to \<open>draft\<close>.
\<close>

theorem archived_status_is_left:
  "map status (contents db0) = [''draft''] \<and>
   map status (contents (run [(alice, 2000, UpdateContent 1 ''Hello'' (Some ''archived''))] db0))
     = [''archived''] \<and>
   map status (contents (run [(alice, 2000, UpdateContent 1 ''Hello'' (Some ''archived'')),
                              (alice, 3000, PublishContent 1 [''website''])] db0))
     = [''published''] \<and>
   map status (contents (run [(alice, 2000, PublishContent 1 [''website'']),
                              (alice, 3000, UpdateContent 1 ''Hello'' (Some ''draft''))] db0))
     = [''draft'']"
  by (simp add: updateContent_def publishContent_def sample_defs save_defs Let_def)

text \<open>The archived artifact of the first account: its author gives it the status
  \<open>archived\<close> and publishes it, and deletes the draft; the second account cannot publish
  it; the bulk requests of an administrator change nothing; and after the publication
  and an update by the author it is still flagged.\<close>

theorem status_moves_and_archive_flag_witness:
  "findById 2 (contents db2) = Some archived2 \<and> validate archived2 \<and>
   author archived2 = user_id alice \<and> isArchived archived2 \<and> status archived2 = ''draft'' \<and>
   (\<exists>s1 c1. handle alice 2000 (UpdateContent 2 ''Old news'' (Some ''archived'')) db2 =
        (s1, Inr (ContentResponse ''Content updated successfully'' c1)) \<and>
      findById 2 (contents s1) = Some c1 \<and> status c1 = ''archived'' \<and> isArchived c1) \<and>
   (\<exists>s1 c1. handle alice 2000 (PublishContent 2 [''website'']) db2 =
        (s1, Inr (ContentResponse ''Content published successfully'' c1)) \<and>
      findById 2 (contents s1) = Some c1 \<and> status c1 = ''published'' \<and> isArchived c1) \<and>
   (\<exists>s1 c1. handle alice 2000 (DeleteContent 1) db2 =
        (s1, Inr (MessageOnly ''Content archived successfully'')) \<and>
      findById 1 (contents s1) = Some c1 \<and> isArchived c1 \<and> status c1 = ''draft'') \<and>
   (\<exists>c'. findById 2 (contents (fst (handle bob 2000 (PublishContent 2 [''website'']) db2))) = Some c' \<and>
      status c' = ''draft'' \<and> isArchived c') \<and>
   role (req_user carol) = ''admin'' \<and>
   fst (handle (req_user carol) 2000 (BulkPublish [1, 2, 3] [''website'']) db2) = db2 \<and>
   fst (handle (req_user carol) 2000 (BulkArchive [1, 2, 3]) db2) = db2 \<and>
   (\<exists>c''. findById 2 (contents (run [(alice, 2000, PublishContent 2 [''website'']),
              (alice, 3000, UpdateContent 2 ''Old news again'' (Some ''draft''))] db2)) = Some c'' \<and>
      isArchived c'')"
proof -
  have f2: "findById 2 (contents db2) = Some archived2"
    by (simp add: db2_def archived2_def foreign3_def sample_defs findById_def)
  have f1: "findById 1 (contents db2) = Some draft1"
    by (simp add: db2_def archived2_def foreign3_def sample_defs findById_def)
  have v2: "validate archived2"
    by (simp add: archived2_def new_content_def validate_def type_enum_def status_enum_def)
  have v1: "validate draft1"
    by (simp add: sample_defs validate_def type_enum_def status_enum_def)
  have a: "author archived2 = user_id alice" "author draft1 = user_id alice"
      "author archived2 \<noteq> user_id bob"
    by (simp_all add: archived2_def sample_defs)
  have d: "isArchived archived2" "status archived2 = ''draft''" "status draft1 = ''draft''"
    by (simp_all add: archived2_def sample_defs)
  have e: "''archived'' \<in> set status_enum" "set [''website''] \<subseteq> set platform_enum"
      "''Old news'' \<noteq> []"
    by (simp_all add: status_enum_def platform_enum_def)
  have k: "role (req_user carol) = ''admin''" "company_id (req_user carol) = None"
    by (simp_all add: req_user_def carol_def)
  note t = status_moves_and_archive_flag[OF f2, where u = alice and now = 2000
      and r = "GetContentVersions 2" and chs = "[''website'']" and body = "''Old news''"
      and v = "''archived''" and ids = "[1, 2, 3]"
      and rs = "[(alice, 2000, PublishContent 2 [''website'']),
                 (alice, 3000, UpdateContent 2 ''Old news again'' (Some ''draft''))]"]
  from t v2 a(1) e d(1)
  have 1: "\<exists>s1 c1. handle alice 2000 (UpdateContent 2 ''Old news'' (Some ''archived'')) db2 =
        (s1, Inr (ContentResponse ''Content updated successfully'' c1)) \<and>
      findById 2 (contents s1) = Some c1 \<and> status c1 = ''archived'' \<and> isArchived c1"
    by auto
  from t v2 a(1) e d(1)
  have 2: "\<exists>s1 c1. handle alice 2000 (PublishContent 2 [''website'']) db2 =
        (s1, Inr (ContentResponse ''Content published successfully'' c1)) \<and>
      findById 2 (contents s1) = Some c1 \<and> status c1 = ''published'' \<and> isArchived c1"
    by auto
  from t d(1)
  have 6: "\<exists>c''. findById 2 (contents (run [(alice, 2000, PublishContent 2 [''website'']),
              (alice, 3000, UpdateContent 2 ''Old news again'' (Some ''draft''))] db2)) = Some c'' \<and>
      isArchived c''"
    by blast
  note t1 = status_moves_and_archive_flag[OF f1, where u = alice and now = 2000
      and r = "GetContentVersions 1" and chs = "[''website'']" and body = "''Old news''"
      and v = "''archived''" and ids = "[1, 2, 3]" and rs = "[]"]
  from t1 v1 a(2) d(3)
  have 3: "\<exists>s1 c1. handle alice 2000 (DeleteContent 1) db2 =
        (s1, Inr (MessageOnly ''Content archived successfully'')) \<and>
      findById 1 (contents s1) = Some c1 \<and> isArchived c1 \<and> status c1 = ''draft''"
    by auto
  note tb = status_moves_and_archive_flag[OF f2, where u = bob and now = 2000
      and r = "PublishContent 2 [''website'']" and chs = "[''website'']" and body = "''Old news''"
      and v = "''archived''" and ids = "[1, 2, 3]" and rs = "[]"]
  then obtain c' where c': "findById 2 (contents (fst (handle bob 2000 (PublishContent 2 [''website'']) db2))) = Some c'"
      "moved bob (PublishContent 2 [''website'']) 2 archived2 c'"
    by blast
  from c'(2) a(3) d(1,2) have "status c' = ''draft'' \<and> isArchived c'"
    by (auto simp: moved_def)
  with c'(1)
  have 4: "\<exists>c'. findById 2 (contents (fst (handle bob 2000 (PublishContent 2 [''website'']) db2))) = Some c' \<and>
      status c' = ''draft'' \<and> isArchived c'"
    by blast
  note tc = status_moves_and_archive_flag[OF f2, where u = "req_user carol" and now = 2000
      and r = "GetContentVersions 2" and chs = "[''website'']" and body = "''Old news''"
      and v = "''archived''" and ids = "[1, 2, 3]" and rs = "[]"]
  from tc k(2)
  have 5: "fst (handle (req_user carol) 2000 (BulkPublish [1, 2, 3] [''website'']) db2) = db2"
      "fst (handle (req_user carol) 2000 (BulkArchive [1, 2, 3]) db2) = db2"
    by blast+
  from f2 v2 a(1) d(1,2) 1 2 3 4 k(1) 5 6 show ?thesis
    by (intro conjI)
qed

section \<open>Design tokens\<close>

lemma floor_numeral_div_rat:
  "\<lfloor>numeral a / numeral b :: rat\<rfloor> = numeral a div numeral b"
  by (metis floor_divide_of_int_eq of_int_numeral)

lemma math_round_range:
  assumes "0 \<le> y" "y \<le> 255"
  shows "0 \<le> math_round y \<and> math_round y \<le> 255"
proof -
  have "0 \<le> y + 1 / 2"
    using assms by simp
  then have 1: "0 \<le> \<lfloor>y + 1 / 2\<rfloor>"
    by simp
  have "y + 1 / 2 < 256"
    using assms by simp
  then have "\<lfloor>y + 1 / 2\<rfloor> < 256"
    by (simp add: floor_less_iff)
  with 1 show ?thesis
    by (simp add: math_round_def)
qed

lemma toInt32_small: "- (2 ^ 31) \<le> x \<Longrightarrow> x < 2 ^ 31 \<Longrightarrow> toInt32 x = x"
  by (simp add: toInt32_def)

lemma shiftLeft_byte:
  assumes "0 \<le> x" "x \<le> 255" "n \<le> 16"
  shows "shiftLeft x n = x * 2 ^ n"
proof -
  have a: "toInt32 x = x"
    using assms by (intro toInt32_small) auto
  have "(2::int) ^ n \<le> 2 ^ 16"
    using assms(3) by (intro power_increasing) auto
  then have "x * 2 ^ n \<le> 255 * 2 ^ 16"
    using assms(1,2) by (intro mult_mono) auto
  moreover have "0 \<le> x * 2 ^ n"
    using assms(1) by simp
  ultimately have b: "toInt32 (x * 2 ^ n) = x * 2 ^ n"
    by (intro toInt32_small) auto
  from assms(3) have "n mod 32 = n"
    by simp
  with a b show ?thesis
    by (simp add: shiftLeft_def)
qed

lemma shiftLeft_one: "shiftLeft 1 24 = 2 ^ 24"
  by (simp add: shiftLeft_def toInt32_def)

lemma hex_digit_char: "hex_char (hex_digit d)"
proof -
  have "d mod 16 < length ''0123456789abcdef''"
    by simp
  then have "''0123456789abcdef'' ! (d mod 16) \<in> set ''0123456789abcdef''"
    by (rule nth_mem)
  then show ?thesis
    by (simp only: hex_char_def hex_digit_def)
qed

text \<open>The digits of a number that is written with seven hex digits, the first of
  them 1.\<close>

lemma hex_digits_snoc:
  assumes "0 < n" "d < 16"
  shows "hex_digits (16 * n + d) = hex_digits n @ [hex_digit d]"
proof -
  from assms have 1: "\<not> 16 * n + d < 16" and 2: "(16 * n + d) div 16 = n"
    by simp_all
  have 3: "hex_digit (16 * n + d) = hex_digit d"
    by (simp add: hex_digit_def)
  show ?thesis
    by (subst hex_digits.simps) (simp only: 1 2 3 if_False)
qed

lemma seven_generic:
  fixes a a' b b' c c' :: nat
  shows "16 * (16 * (16 * (16 * (16 * (16 + a) + a') + b) + b') + c) + c' =
         16777216 + (16 * a + a') * 65536 + (16 * b + b') * 256 + (16 * c + c')"
  by simp

lemma seven_digits:
  fixes R G B :: nat
  shows "16 * (16 * (16 * (16 * (16 * (16 + R div 16) + R mod 16) + G div 16) + G mod 16) + B div 16)
          + B mod 16 = 16777216 + R * 65536 + G * 256 + B"
  unfolding seven_generic by (simp only: mult_div_mod_eq)

lemma hex_digits_bytes:
  assumes "R < 256" "G < 256" "B < 256"
  shows "hex_digits (16777216 + R * 65536 + G * 256 + B) =
           CHR ''1'' # hex_pair R @ hex_pair G @ hex_pair B"
proof -
  define n1 where "n1 = 16 * 1 + R div 16"
  define n2 where "n2 = 16 * n1 + R mod 16"
  define n3 where "n3 = 16 * n2 + G div 16"
  define n4 where "n4 = 16 * n3 + G mod 16"
  define n5 where "n5 = 16 * n4 + B div 16"
  define n6 where "n6 = 16 * n5 + B mod 16"
  have pos: "0 < n1" "0 < n2" "0 < n3" "0 < n4" "0 < n5"
    by (simp_all add: n1_def n2_def n3_def n4_def n5_def)
  from assms have d: "R div 16 < 16" "G div 16 < 16" "B div 16 < 16"
    by simp_all
  have m: "R mod 16 < 16" "G mod 16 < 16" "B mod 16 < 16"
    by simp_all
  have h0: "hex_digits 1 = [CHR ''1'']"
    by (subst hex_digits.simps) (simp add: hex_digit_def)
  have h1: "hex_digits n1 = hex_digits 1 @ [hex_digit (R div 16)]"
    unfolding n1_def by (rule hex_digits_snoc[OF _ d(1)]) simp
  have h2: "hex_digits n2 = hex_digits n1 @ [hex_digit (R mod 16)]"
    unfolding n2_def by (rule hex_digits_snoc[OF pos(1) m(1)])
  have h3: "hex_digits n3 = hex_digits n2 @ [hex_digit (G div 16)]"
    unfolding n3_def by (rule hex_digits_snoc[OF pos(2) d(2)])
  have h4: "hex_digits n4 = hex_digits n3 @ [hex_digit (G mod 16)]"
    unfolding n4_def by (rule hex_digits_snoc[OF pos(3) m(2)])
  have h5: "hex_digits n5 = hex_digits n4 @ [hex_digit (B div 16)]"
    unfolding n5_def by (rule hex_digits_snoc[OF pos(4) d(3)])
  have h6: "hex_digits n6 = hex_digits n5 @ [hex_digit (B mod 16)]"
    unfolding n6_def by (rule hex_digits_snoc[OF pos(5) m(3)])
  have md: "hex_digit (x mod 16) = hex_digit x" for x
    unfolding hex_digit_def by (simp only: mod_mod_trivial)
  have "16 * (16 * (16 * (16 * (16 * (16 + R div 16) + R mod 16) + G div 16) + G mod 16) + B div 16)
          + B mod 16 = 16777216 + R * 65536 + G * 256 + B"
    by (rule seven_digits)
  then have v: "16777216 + R * 65536 + G * 256 + B = n6"
    by (simp add: n6_def n5_def n4_def n3_def n2_def n1_def)
  show ?thesis
    unfolding v h6 h5 h4 h3 h2 h1 h0 by (simp add: hex_pair_def md)
qed

text \<open>\<open>rgbToHex\<close> of three products between 0 and 255 is \<open>#\<close> and, byte by byte, the
  two hex digits of the rounded product.\<close>

lemma rgbToHex_digits:
  assumes "0 \<le> mul (col_r c) 255 \<and> mul (col_r c) 255 \<le> 255"
    and "0 \<le> mul (col_g c) 255 \<and> mul (col_g c) 255 \<le> 255"
    and "0 \<le> mul (col_b c) 255 \<and> mul (col_b c) 255 \<le> 255"
  shows "rgbToHex mul c =
           CHR ''#'' # hex_pair (nat (math_round (mul (col_r c) 255))) @
                       hex_pair (nat (math_round (mul (col_g c) 255))) @
                       hex_pair (nat (math_round (mul (col_b c) 255)))"
proof -
  define r where "r = math_round (mul (col_r c) 255)"
  define g where "g = math_round (mul (col_g c) 255)"
  define b where "b = math_round (mul (col_b c) 255)"
  define v where "v = shiftLeft 1 24 + shiftLeft r 16 + shiftLeft g 8 + b"
  from assms have r: "0 \<le> r" "r \<le> 255" and g: "0 \<le> g" "g \<le> 255" and b: "0 \<le> b" "b \<le> 255"
    using math_round_range[of "mul (col_r c) 255"] math_round_range[of "mul (col_g c) 255"]
      math_round_range[of "mul (col_b c) 255"]
    by (simp_all add: r_def g_def b_def)
  have v: "v = 2 ^ 24 + r * 2 ^ 16 + g * 2 ^ 8 + b"
    using r g by (simp add: v_def shiftLeft_one shiftLeft_byte)
  from r g b have pos: "\<not> v < 0"
    unfolding v by simp
  have "nat v = nat (16777216 + r * 65536 + g * 256 + b)"
    unfolding v by simp
  also have "\<dots> = 16777216 + nat r * 65536 + nat g * 256 + nat b"
    using r g b by (simp add: nat_add_distrib nat_mult_distrib)
  finally have n: "nat v = 16777216 + nat r * 65536 + nat g * 256 + nat b" .
  from r g b have lt: "nat r < 256" "nat g < 256" "nat b < 256"
    by simp_all
  have "rgbToHex mul c = CHR ''#'' # drop 1 (hex_digits (nat v))"
    using pos by (simp add: rgbToHex_def Let_def toString16_def v_def r_def g_def b_def)
  also have "\<dots> = CHR ''#'' # hex_pair (nat r) @ hex_pair (nat g) @ hex_pair (nat b)"
    unfolding n hex_digits_bytes[OF lt] by simp
  finally show ?thesis
    unfolding r_def g_def b_def .
qed

lemma hex_pair_chars: "list_all hex_char (hex_pair n) \<and> length (hex_pair n) = 2"
  by (simp add: hex_pair_def hex_digit_char)

lemma hex_pairs_color:
  "hex_color (CHR ''#'' # hex_pair x @ hex_pair y @ hex_pair z)"
  using hex_pair_chars[of x] hex_pair_chars[of y] hex_pair_chars[of z]
  by (simp add: hex_color_def)

lemma distinct_set_add: "distinct xs \<Longrightarrow> distinct (set_add x xs)"
  by (simp add: set_add_def)

lemma set_set_add: "set (set_add x xs) = insert x (set xs)"
  by (auto simp: set_add_def)

lemma fold_invariant:
  "(\<And>x t. x \<in> set xs \<Longrightarrow> Q t \<Longrightarrow> Q (f x t)) \<Longrightarrow> Q t \<Longrightarrow> Q (fold f xs t)"
  by (induction xs arbitrary: t) auto

lemma fold_collects:
  "(\<And>x t. x \<in> set xs \<Longrightarrow> A (f x t) = A t \<union> B x) \<Longrightarrow> A (fold f xs t) = A t \<union> \<Union> (B ` set xs)"
proof (induction xs arbitrary: t)
  case Nil
  then show ?case
    by simp
next
  case (Cons x xs)
  have "A (fold f xs (f x t)) = A (f x t) \<union> \<Union> (B ` set xs)"
    by (rule Cons.IH) (simp add: Cons.prems)
  also have "A (f x t) = A t \<union> B x"
    by (simp add: Cons.prems)
  finally show ?case
    by auto
qed

lemma add_fill_keeps: "no_duplicates tk \<Longrightarrow> no_duplicates (add_fill mul f tk)"
  by (simp add: no_duplicates_def add_fill_def distinct_set_add)

lemma add_effect_keeps: "no_duplicates tk \<Longrightarrow> no_duplicates (add_effect e tk)"
  by (simp add: no_duplicates_def add_effect_def distinct_set_add)

lemma traverse_keeps: "no_duplicates tk \<Longrightarrow> no_duplicates (traverseNodes mul n tk)"
proof (induction n arbitrary: tk)
  case (Node fs st pt pr pb pl es cs)
  define t1 where "t1 = fold (add_fill mul) fs tk"
  define t2 where "t2 = (case st of None \<Rightarrow> t1 | Some sty \<Rightarrow> t1\<lparr>typography := set_add sty (typography t1)\<rparr>)"
  define t3 where "t3 = (case pt of None \<Rightarrow> t2
     | Some ptop \<Rightarrow> t2\<lparr>spacing := set_add \<lparr>pad_top = ptop, pad_right = pr, pad_bottom = pb, pad_left = pl\<rparr> (spacing t2)\<rparr>)"
  define t4 where "t4 = fold add_effect es t3"
  have 1: "no_duplicates t1"
    unfolding t1_def by (rule fold_invariant[where Q = no_duplicates]) (auto intro: add_fill_keeps Node.prems)
  then have 2: "no_duplicates t2"
    by (auto simp: t2_def no_duplicates_def distinct_set_add split: option.splits)
  then have 3: "no_duplicates t3"
    by (auto simp: t3_def no_duplicates_def distinct_set_add split: option.splits)
  then have 4: "no_duplicates t4"
    unfolding t4_def by (intro fold_invariant[where Q = no_duplicates]) (auto intro: add_effect_keeps)
  have e: "traverseNodes mul (Node fs st pt pr pb pl es cs) tk = fold (\<lambda>child t. traverseNodes mul child t) cs t4"
    unfolding t1_def t2_def t3_def t4_def by (simp add: Let_def)
  have "no_duplicates (fold (\<lambda>child t. traverseNodes mul child t) cs t4)"
    by (rule fold_invariant[where Q = no_duplicates]) (auto intro: Node.IH 4)
  then show ?case
    by (simp only: e)
qed

lemma add_fill_colors:
  "set (colors (add_fill mul f tk)) =
     set (colors tk) \<union> (if paint_type f = ''SOLID'' then {rgbToHex mul (paint_color f)} else {})"
  by (simp add: add_fill_def set_set_add)

lemma fills_colors:
  "set (colors (fold (add_fill mul) fs tk)) =
     set (colors tk) \<union> rgbToHex mul ` set (map paint_color (filter (\<lambda>f. paint_type f = ''SOLID'') fs))"
proof -
  have "set (colors (fold (add_fill mul) fs tk)) = set (colors tk) \<union>
      \<Union> ((\<lambda>f. if paint_type f = ''SOLID'' then {rgbToHex mul (paint_color f)} else {}) ` set fs)"
    by (rule fold_collects[where A = "\<lambda>t. set (colors t)"]) (rule add_fill_colors)
  then show ?thesis
    by auto
qed

lemma effects_colors: "colors (fold add_effect es tk) = colors tk"
  by (induction es arbitrary: tk) (simp_all add: add_effect_def)

lemma traverse_colors:
  "set (colors (traverseNodes mul n tk)) = set (colors tk) \<union> rgbToHex mul ` set (solid_colors n)"
proof (induction n arbitrary: tk)
  case (Node fs st pt pr pb pl es cs)
  define t1 where "t1 = fold (add_fill mul) fs tk"
  define t2 where "t2 = (case st of None \<Rightarrow> t1 | Some sty \<Rightarrow> t1\<lparr>typography := set_add sty (typography t1)\<rparr>)"
  define t3 where "t3 = (case pt of None \<Rightarrow> t2
     | Some ptop \<Rightarrow> t2\<lparr>spacing := set_add \<lparr>pad_top = ptop, pad_right = pr, pad_bottom = pb, pad_left = pl\<rparr> (spacing t2)\<rparr>)"
  define t4 where "t4 = fold add_effect es t3"
  have c4: "set (colors t4) = set (colors tk) \<union>
      rgbToHex mul ` set (map paint_color (filter (\<lambda>f. paint_type f = ''SOLID'') fs))"
    by (simp add: t4_def effects_colors t3_def t2_def t1_def fills_colors split: option.splits)
  have "set (colors (fold (\<lambda>child t. traverseNodes mul child t) cs t4)) =
      set (colors t4) \<union> \<Union> ((\<lambda>child. rgbToHex mul ` set (solid_colors child)) ` set cs)"
    by (rule fold_collects[where A = "\<lambda>t. set (colors t)"]) (rule Node.IH)
  moreover
  have e: "traverseNodes mul (Node fs st pt pr pb pl es cs) tk = fold (\<lambda>child t. traverseNodes mul child t) cs t4"
    unfolding t1_def t2_def t3_def t4_def by (simp add: Let_def)
  moreover
  have "solid_colors (Node fs st pt pr pb pl es cs) =
      map paint_color (filter (\<lambda>f. paint_type f = ''SOLID'') fs) @ concat (map (\<lambda>child. solid_colors child) cs)"
    by simp
  ultimately show ?case
    using c4 by (simp only: set_append set_concat set_map image_Un image_UN) auto
qed

lemma fills_others:
  "typography (fold (add_fill mul) fs tk) = typography tk"
  "spacing (fold (add_fill mul) fs tk) = spacing tk"
  "tk_effects (fold (add_fill mul) fs tk) = tk_effects tk"
  by (induction fs arbitrary: tk) (simp_all add: add_fill_def)

lemma effects_others:
  "typography (fold add_effect es tk) = typography tk"
  "spacing (fold add_effect es tk) = spacing tk"
  by (induction es arbitrary: tk) (simp_all add: add_effect_def)

lemma effects_effects:
  "set (tk_effects (fold add_effect es tk)) = set (tk_effects tk) \<union> set es"
  by (induction es arbitrary: tk) (auto simp: add_effect_def set_set_add)

lemma traverse_typography:
  "set (typography (traverseNodes mul n tk)) = set (typography tk) \<union> set (styles_of n)"
proof (induction n arbitrary: tk)
  case (Node fs st pt pr pb pl es cs)
  define t1 where "t1 = fold (add_fill mul) fs tk"
  define t2 where "t2 = (case st of None \<Rightarrow> t1 | Some sty \<Rightarrow> t1\<lparr>typography := set_add sty (typography t1)\<rparr>)"
  define t3 where "t3 = (case pt of None \<Rightarrow> t2
     | Some ptop \<Rightarrow> t2\<lparr>spacing := set_add \<lparr>pad_top = ptop, pad_right = pr, pad_bottom = pb, pad_left = pl\<rparr> (spacing t2)\<rparr>)"
  define t4 where "t4 = fold add_effect es t3"
  have c4: "set (typography t4) = set (typography tk) \<union> set (case st of None \<Rightarrow> [] | Some sty \<Rightarrow> [sty])"
    by (auto simp: t4_def effects_others t3_def t2_def t1_def fills_others set_set_add split: option.splits)
  have "set (typography (fold (\<lambda>child t. traverseNodes mul child t) cs t4)) =
      set (typography t4) \<union> \<Union> ((\<lambda>child. set (styles_of child)) ` set cs)"
    by (rule fold_collects[where A = "\<lambda>t. set (typography t)"]) (rule Node.IH)
  moreover
  have e: "traverseNodes mul (Node fs st pt pr pb pl es cs) tk = fold (\<lambda>child t. traverseNodes mul child t) cs t4"
    unfolding t1_def t2_def t3_def t4_def by (simp add: Let_def)
  ultimately show ?case
    using c4 by (simp only: styles_of.simps set_append set_concat set_map image_Un image_UN) auto
qed

lemma traverse_spacing:
  "set (spacing (traverseNodes mul n tk)) = set (spacing tk) \<union> set (paddings_of n)"
proof (induction n arbitrary: tk)
  case (Node fs st pt pr pb pl es cs)
  define t1 where "t1 = fold (add_fill mul) fs tk"
  define t2 where "t2 = (case st of None \<Rightarrow> t1 | Some sty \<Rightarrow> t1\<lparr>typography := set_add sty (typography t1)\<rparr>)"
  define t3 where "t3 = (case pt of None \<Rightarrow> t2
     | Some ptop \<Rightarrow> t2\<lparr>spacing := set_add \<lparr>pad_top = ptop, pad_right = pr, pad_bottom = pb, pad_left = pl\<rparr> (spacing t2)\<rparr>)"
  define t4 where "t4 = fold add_effect es t3"
  have c4: "set (spacing t4) = set (spacing tk) \<union>
      set (case pt of None \<Rightarrow> []
           | Some ptop \<Rightarrow> [\<lparr>pad_top = ptop, pad_right = pr, pad_bottom = pb, pad_left = pl\<rparr>])"
    by (auto simp: t4_def effects_others t3_def t2_def t1_def fills_others set_set_add split: option.splits)
  have "set (spacing (fold (\<lambda>child t. traverseNodes mul child t) cs t4)) =
      set (spacing t4) \<union> \<Union> ((\<lambda>child. set (paddings_of child)) ` set cs)"
    by (rule fold_collects[where A = "\<lambda>t. set (spacing t)"]) (rule Node.IH)
  moreover
  have e: "traverseNodes mul (Node fs st pt pr pb pl es cs) tk = fold (\<lambda>child t. traverseNodes mul child t) cs t4"
    unfolding t1_def t2_def t3_def t4_def by (simp add: Let_def)
  ultimately show ?case
    using c4 by (simp only: paddings_of.simps set_append set_concat set_map image_Un image_UN) auto
qed

lemma traverse_effects:
  "set (tk_effects (traverseNodes mul n tk)) = set (tk_effects tk) \<union> set (effects_of n)"
proof (induction n arbitrary: tk)
  case (Node fs st pt pr pb pl es cs)
  define t1 where "t1 = fold (add_fill mul) fs tk"
  define t2 where "t2 = (case st of None \<Rightarrow> t1 | Some sty \<Rightarrow> t1\<lparr>typography := set_add sty (typography t1)\<rparr>)"
  define t3 where "t3 = (case pt of None \<Rightarrow> t2
     | Some ptop \<Rightarrow> t2\<lparr>spacing := set_add \<lparr>pad_top = ptop, pad_right = pr, pad_bottom = pb, pad_left = pl\<rparr> (spacing t2)\<rparr>)"
  define t4 where "t4 = fold add_effect es t3"
  have c4: "set (tk_effects t4) = set (tk_effects tk) \<union> set es"
    by (auto simp: t4_def effects_effects t3_def t2_def t1_def fills_others split: option.splits)
  have "set (tk_effects (fold (\<lambda>child t. traverseNodes mul child t) cs t4)) =
      set (tk_effects t4) \<union> \<Union> ((\<lambda>child. set (effects_of child)) ` set cs)"
    by (rule fold_collects[where A = "\<lambda>t. set (tk_effects t)"]) (rule Node.IH)
  moreover
  have e: "traverseNodes mul (Node fs st pt pr pb pl es cs) tk = fold (\<lambda>child t. traverseNodes mul child t) cs t4"
    unfolding t1_def t2_def t3_def t4_def by (simp add: Let_def)
  ultimately show ?case
    using c4 by (simp only: effects_of.simps set_append set_concat set_map image_Un image_UN) auto
qed

lemma distinct_singleton: "distinct xs \<Longrightarrow> set xs = {x} \<Longrightarrow> xs = [x]"
proof -
  assume d: "distinct xs" and s: "set xs = {x}"
  from distinct_card[OF d] s have "length xs = 1"
    by simp
  then obtain a where "xs = [a]"
    by (cases xs) auto
  with s show ?thesis
    by simp
qed

text \<open>
  Claim C8, as the code has it. Let \<open>mul\<close>, the product of doubles, take a factor
  between 0 and 1 and the factor 255 to a product between 0 and 255, as the rounded
  product does. When \<open>extractDesignTokens\<close> returns tokens, the answer of the design
  tool was a file, and of its tree:

  \<^item> no category of the tokens holds a value twice, where two descriptors are the same
    value when their JSON texts are the same, that is with the keys in the same order;
  \<^item> the colours are exactly the hex strings of the colours of the solid fills, the
    typography the text styles, the spacing the paddings and the effects the effects of
    the tree;
  \<^item> the hex string of a normalised colour is \<open>#\<close> and six hex digits: the two digits
    of \<open>Math.round\<close> of the product of the red component and 255, those of the green
    one, and those of the blue one;
  \<^item> when all solid fills of the tree have one colour, the colours of the tokens are
    that one hex string, once.
\<close>

theorem extractDesignTokens_deduplicates:
  assumes "extractDesignTokens mul answer = Inr tk"
    and "\<And>x. 0 \<le> x \<Longrightarrow> x \<le> 1 \<Longrightarrow> 0 \<le> mul x 255 \<and> mul x 255 \<le> 255"
  shows "\<exists>doc. answer = FileData doc \<and>
     distinct (colors tk) \<and> distinct (typography tk) \<and> distinct (spacing tk) \<and>
     distinct (tk_effects tk) \<and>
     set (colors tk) = rgbToHex mul ` set (solid_colors doc) \<and>
     set (typography tk) = set (styles_of doc) \<and>
     set (spacing tk) = set (paddings_of doc) \<and>
     set (tk_effects tk) = set (effects_of doc) \<and>
     (\<forall>c. normalized c \<longrightarrow>
        hex_color (rgbToHex mul c) \<and>
        rgbToHex mul c =
          CHR ''#'' # hex_pair (nat (math_round (mul (col_r c) 255))) @
                      hex_pair (nat (math_round (mul (col_g c) 255))) @
                      hex_pair (nat (math_round (mul (col_b c) 255)))) \<and>
     (\<forall>c. set (solid_colors doc) = {c} \<longrightarrow> colors tk = [rgbToHex mul c])"
proof -
  from assms(1) obtain doc where a: "answer = FileData doc" and tk: "tk = traverseNodes mul doc no_tokens"
    by (auto simp: extractDesignTokens_def getFile_def split: file_answer.splits sum.splits)
  have "no_duplicates no_tokens"
    by (simp add: no_duplicates_def no_tokens_def)
  from traverse_keeps[OF this, of mul doc]
  have d: "distinct (colors tk)" "distinct (typography tk)" "distinct (spacing tk)"
      "distinct (tk_effects tk)"
    by (simp_all add: tk no_duplicates_def)
  have c: "set (colors tk) = rgbToHex mul ` set (solid_colors doc)"
    by (simp add: tk traverse_colors no_tokens_def)
  have t: "set (typography tk) = set (styles_of doc)"
    by (simp add: tk traverse_typography no_tokens_def)
  have s: "set (spacing tk) = set (paddings_of doc)"
    by (simp add: tk traverse_spacing no_tokens_def)
  have e: "set (tk_effects tk) = set (effects_of doc)"
    by (simp add: tk traverse_effects no_tokens_def)
  have h: "\<forall>c. normalized c \<longrightarrow>
        hex_color (rgbToHex mul c) \<and>
        rgbToHex mul c =
          CHR ''#'' # hex_pair (nat (math_round (mul (col_r c) 255))) @
                      hex_pair (nat (math_round (mul (col_g c) 255))) @
                      hex_pair (nat (math_round (mul (col_b c) 255)))"
  proof (intro allI impI)
    fix c
    assume n: "normalized c"
    then have "0 \<le> mul (col_r c) 255 \<and> mul (col_r c) 255 \<le> 255"
      and "0 \<le> mul (col_g c) 255 \<and> mul (col_g c) 255 \<le> 255"
      and "0 \<le> mul (col_b c) 255 \<and> mul (col_b c) 255 \<le> 255"
      using assms(2) by (simp_all add: normalized_def)
    from rgbToHex_digits[where mul = mul and c = c, OF this]
    have p: "rgbToHex mul c =
          CHR ''#'' # hex_pair (nat (math_round (mul (col_r c) 255))) @
                      hex_pair (nat (math_round (mul (col_g c) 255))) @
                      hex_pair (nat (math_round (mul (col_b c) 255)))" .
    moreover have "hex_color (rgbToHex mul c)"
      unfolding p by (rule hex_pairs_color)
    ultimately show "hex_color (rgbToHex mul c) \<and>
        rgbToHex mul c =
          CHR ''#'' # hex_pair (nat (math_round (mul (col_r c) 255))) @
                      hex_pair (nat (math_round (mul (col_g c) 255))) @
                      hex_pair (nat (math_round (mul (col_b c) 255)))"
      by blast
  qed
  have o: "\<forall>c. set (solid_colors doc) = {c} \<longrightarrow> colors tk = [rgbToHex mul c]"
    using c d(1) by (auto intro: distinct_singleton)
  from a d c t s e h o show ?thesis
    by blast
qed

text \<open>
  Claim C8 as stated fails. One drop shadow written with its keys in two orders is
  one effect under structural equality, and the tokens hold it twice: the set of the
  effects compares the JSON texts.
\<close>

theorem key_order_keeps_duplicates:
  "same_json shadow_a shadow_b \<and>
   extractDesignTokens (\<lambda>x y. x * y) (FileData two_shadows) =
     Inr \<lparr>colors = [], typography = [], spacing = [], tk_effects = [shadow_a, shadow_b]\<rparr>"
  by (simp add: shadow_a_def shadow_b_def two_shadows_def extractDesignTokens_def getFile_def
      no_tokens_def add_effect_def set_add_def insert_commute)

text \<open>A file with two solid fills of one colour: the products of its components and
  255 are exact, and the one colour of the tokens has the digits of 255, 128 and 0.\<close>

lemma floor_one_div_rat:
  "\<lfloor>1 / numeral b :: rat\<rfloor> = 1 div numeral b"
  by (metis floor_divide_of_int_eq of_int_1 of_int_numeral)

lemma orange_rounds:
  "math_round (col_r orange * 255) = 255" "math_round (col_g orange * 255) = 128"
  "math_round (col_b orange * 255) = 0"
  by (simp_all add: orange_def math_round_def floor_numeral_div_rat floor_one_div_rat)

lemma orange_pairs: "hex_pair 255 = ''ff''" "hex_pair 128 = ''80''" "hex_pair 0 = ''00''"
  by (simp_all add: hex_pair_def hex_digit_def)

theorem extractDesignTokens_deduplicates_witness:
  "extractDesignTokens (\<lambda>x y. x * y) (FileData two_fills) =
     Inr \<lparr>colors = [''#ff8000''], typography = [], spacing = [], tk_effects = []\<rparr> \<and>
   solid_colors two_fills = [orange, orange] \<and> normalized orange \<and>
   rgbToHex (\<lambda>x y. x * y) orange = ''#ff8000'' \<and>
   hex_color ''#ff8000'' \<and> distinct [''#ff8000'']"
proof -
  have "\<exists>tk. extractDesignTokens (\<lambda>x y. x * y) (FileData two_fills) = Inr tk"
    by (simp add: extractDesignTokens_def getFile_def)
  then obtain tk where e: "extractDesignTokens (\<lambda>x y. x * y) (FileData two_fills) = Inr tk"
    by blast
  have m: "0 \<le> x \<Longrightarrow> x \<le> 1 \<Longrightarrow> 0 \<le> x * 255 \<and> x * 255 \<le> 255" for x :: rat
    by simp
  have s: "solid_colors two_fills = [orange, orange]"
    by (simp add: two_fills_def)
  have n: "normalized orange"
    by (simp add: normalized_def orange_def)
  from extractDesignTokens_deduplicates[OF e m]
  obtain doc where doc: "FileData two_fills = FileData doc"
    and t: "distinct (colors tk)" "set (typography tk) = set (styles_of doc)"
      "set (spacing tk) = set (paddings_of doc)" "set (tk_effects tk) = set (effects_of doc)"
    and h: "\<forall>c. normalized c \<longrightarrow>
        hex_color (rgbToHex (\<lambda>x y. x * y) c) \<and>
        rgbToHex (\<lambda>x y. x * y) c =
          CHR ''#'' # hex_pair (nat (math_round (col_r c * 255))) @
                      hex_pair (nat (math_round (col_g c * 255))) @
                      hex_pair (nat (math_round (col_b c * 255)))"
    and o: "\<forall>c. set (solid_colors doc) = {c} \<longrightarrow> colors tk = [rgbToHex (\<lambda>x y. x * y) c]"
    by blast
  from doc have d: "doc = two_fills"
    by simp
  from h n have hc: "hex_color (rgbToHex (\<lambda>x y. x * y) orange)"
    and "rgbToHex (\<lambda>x y. x * y) orange =
          CHR ''#'' # hex_pair (nat (math_round (col_r orange * 255))) @
                      hex_pair (nat (math_round (col_g orange * 255))) @
                      hex_pair (nat (math_round (col_b orange * 255)))"
    by blast+
  then have x: "rgbToHex (\<lambda>x y. x * y) orange = ''#ff8000''"
    by (simp add: orange_rounds orange_pairs)
  from o x have c: "colors tk = [''#ff8000'']"
    unfolding d s by simp
  from t(2,3,4) have r: "typography tk = []" "spacing tk = []" "tk_effects tk = []"
    unfolding d by (simp_all add: two_fills_def)
  from c r have "tk = \<lparr>colors = [''#ff8000''], typography = [], spacing = [], tk_effects = []\<rparr>"
    by simp
  with e have 1: "extractDesignTokens (\<lambda>x y. x * y) (FileData two_fills) =
     Inr \<lparr>colors = [''#ff8000''], typography = [], spacing = [], tk_effects = []\<rparr>"
    by simp
  from t(1) c have 2: "distinct [''#ff8000'']"
    by simp
  from hc x have 3: "hex_color ''#ff8000''"
    by simp
  from 1 s n x 3 2 show ?thesis
    by (intro conjI)
qed

end
